theory Spec2Isabelle
  imports Main "HOL-Library.Word"
begin

section \<open>Package parameters: \<^verbatim>\<open>HoudiniPackageParams.h\<close>\<close>

text \<open>
  The two enumerations and the parameter struct, field by field. The \<^verbatim>\<open>int32\<close> fields are
  32-bit words; they are only ever rendered to text by the engine's \<^verbatim>\<open>FString::FromInt\<close>.
  A \<^verbatim>\<open>UObject*\<close> is an optional address, \<^verbatim>\<open>nullptr\<close> being \<open>None\<close>.
\<close>

datatype EPackageMode = CookToLevel | CookToTemp | Bake

datatype EPackageReplaceMode = CreateNewAssets | ReplaceExistingAssets

record FGuid =
  GuidA :: "32 word"
  GuidB :: "32 word"
  GuidC :: "32 word"
  GuidD :: "32 word"

record FHoudiniPackageParams =
  PackageMode :: EPackageMode
  ReplaceMode :: EPackageReplaceMode
  BakeFolder :: string
  TempCookFolder :: string
  OuterPackage :: "nat option"
  ObjectName :: string
  HoudiniAssetName :: string
  HoudiniAssetActorName :: string
  ObjectId :: "32 word"
  GeoId :: "32 word"
  PartId :: "32 word"
  SplitStr :: string
  ComponentGUID :: FGuid
  PDGTOPNetworkName :: string
  PDGTOPNodeName :: string
  PDGWorkItemIndex :: "32 word"
  bAttemptToLoadMissingPackages :: bool

text \<open>
  What the two templates call but the header does not define is taken as a parameter:
  the engine's \<^verbatim>\<open>FPaths::GetPath\<close>, \<^verbatim>\<open>FString::FromInt\<close>, \<^verbatim>\<open>FGuid::ToString\<close> and
  \<^verbatim>\<open>UWorld::GetPathName\<close>, the member \<^verbatim>\<open>GetPackagePath\<close> (declared in the header, defined in
  another translation unit), and the conversion \<^verbatim>\<open>ValueT(FString)\<close> of the template argument.
\<close>

record ('w, 'v) path_api =
  FPaths_GetPath :: "string \<Rightarrow> string"
  FString_FromInt :: "32 word \<Rightarrow> string"
  FGuid_ToString :: "FGuid \<Rightarrow> string"
  World_GetPathName :: "'w \<Rightarrow> string"
  GetPackagePath :: "FHoudiniPackageParams \<Rightarrow> string"
  ValueT :: "string \<Rightarrow> 'v"

text \<open>\<^verbatim>\<open>TMap<FString, ValueT>\<close> is a map; \<^verbatim>\<open>Add\<close> stores the value, replacing an older one.\<close>

type_synonym 'v tokens = "string \<rightharpoonup> 'v"

definition TMap_Add :: "string \<Rightarrow> 'v \<Rightarrow> 'v tokens \<Rightarrow> 'v tokens" where
  "TMap_Add k v m = m(k \<mapsto> v)"

definition UpdateOutputPathTokens ::
  "('w, 'v) path_api \<Rightarrow> FHoudiniPackageParams \<Rightarrow> EPackageMode \<Rightarrow> 'v tokens \<Rightarrow> 'v tokens" where
  "UpdateOutputPathTokens api P InPackageMode OutTokens =
     (let PackagePath = GetPackagePath api P;
          T1 = TMap_Add ''temp'' (ValueT api (FPaths_GetPath api (TempCookFolder P))) OutTokens;
          T2 = TMap_Add ''bake'' (ValueT api (FPaths_GetPath api (BakeFolder P))) T1;
          T3 = (case InPackageMode of
                  CookToTemp \<Rightarrow>
                    TMap_Add ''out_basepath'' (ValueT api (FPaths_GetPath api (TempCookFolder P))) T2
                | CookToLevel \<Rightarrow>
                    TMap_Add ''out_basepath'' (ValueT api (FPaths_GetPath api (TempCookFolder P))) T2
                | Bake \<Rightarrow>
                    TMap_Add ''out_basepath'' (ValueT api (FPaths_GetPath api (BakeFolder P))) T2)
      in TMap_Add ''out'' (ValueT api (FPaths_GetPath api PackagePath)) T3)"

definition UpdateTokensFromParams ::
  "('w, 'v) path_api \<Rightarrow> FHoudiniPackageParams \<Rightarrow> 'w \<Rightarrow> 'v tokens \<Rightarrow> 'v tokens" where
  "UpdateTokensFromParams api P WorldContext OutTokens =
     (let T0 = UpdateOutputPathTokens api P (PackageMode P) OutTokens;
          T1 = TMap_Add ''world''
                 (ValueT api (FPaths_GetPath api (World_GetPathName api WorldContext))) T0;
          T2 = TMap_Add ''object_name'' (ValueT api (ObjectName P)) T1;
          T3 = TMap_Add ''object_id'' (ValueT api (FString_FromInt api (ObjectId P))) T2;
          T4 = TMap_Add ''geo_id'' (ValueT api (FString_FromInt api (GeoId P))) T3;
          T5 = TMap_Add ''part_id'' (ValueT api (FString_FromInt api (PartId P))) T4;
          T6 = TMap_Add ''split_str'' (ValueT api (SplitStr P)) T5;
          T7 = TMap_Add ''hda_name'' (ValueT api (HoudiniAssetName P)) T6;
          T8 = TMap_Add ''hda_actor_name'' (ValueT api (HoudiniAssetActorName P)) T7;
          T9 = TMap_Add ''pdg_topnet_name'' (ValueT api (PDGTOPNetworkName P)) T8;
          T10 = TMap_Add ''pdg_topnode_name'' (ValueT api (PDGTOPNodeName P)) T9;
          T11 = TMap_Add ''pdg_workitem_index''
                  (ValueT api (FString_FromInt api (PDGWorkItemIndex P))) T10
      in TMap_Add ''guid'' (ValueT api (FGuid_ToString api (ComponentGUID P))) T11)"


section \<open>Actors in bounds: \<^verbatim>\<open>FindActorsOfClassInBounds\<close>\<close>

text \<open>
  The engine side of the query is a parameter: which actors \<^verbatim>\<open>TActorIterator\<close> yields for a
  world and in which order, whether a world or an actor is pending kill, an actor's class,
  the subclass test \<^verbatim>\<open>UClass::IsChildOf\<close> (its argument is \<^verbatim>\<open>TSubclassOf::Get()\<close>, which may be
  null), the class name, \<^verbatim>\<open>FString::Contains\<close>, the actor's components bounding box and
  \<^verbatim>\<open>FBox::Intersect\<close> (floating-point boxes, kept abstract). Actors are addresses \<open>'a\<close>.
  Every \<^verbatim>\<open>UObject\<close> has a class, so \<^verbatim>\<open>GetClass()\<close> is total and the source's test
  \<^verbatim>\<open>GetClass() ? GetName() : FString()\<close> takes its first branch.
\<close>

record ('w, 'a, 'c, 'b) actor_api =
  World_IsPendingKill :: "'w \<Rightarrow> bool"
  TActorIterator :: "'w \<Rightarrow> 'a list"
  Actor_IsPendingKill :: "'a \<Rightarrow> bool"
  Actor_GetClass :: "'a \<Rightarrow> 'c"
  IsChildOf :: "'c \<Rightarrow> 'c option \<Rightarrow> bool"
  Class_GetName :: "'c \<Rightarrow> string"
  FString_Contains :: "string \<Rightarrow> string \<Rightarrow> bool"
  GetComponentsBoundingBox :: "'a \<Rightarrow> bool \<Rightarrow> 'b"
  FBox_Intersect :: "'b \<Rightarrow> 'b \<Rightarrow> bool"

text \<open>\<^verbatim>\<open>IsValid(p)\<close> is \<^verbatim>\<open>p != nullptr && !p->IsPendingKill()\<close>.\<close>

definition IsValid_World :: "('w, 'a, 'c, 'b) actor_api \<Rightarrow> 'w option \<Rightarrow> bool" where
  "IsValid_World api World = (case World of None \<Rightarrow> False | Some w \<Rightarrow> \<not> World_IsPendingKill api w)"

text \<open>The inner loop over \<^verbatim>\<open>BBoxes\<close>: \<open>True\<close> when it reaches \<^verbatim>\<open>OutActors.Add\<close> and breaks.\<close>

fun IntersectsOneOf :: "('w, 'a, 'c, 'b) actor_api \<Rightarrow> 'b \<Rightarrow> 'b list \<Rightarrow> bool" where
  "IntersectsOneOf api ActorBounds [] = False"
| "IntersectsOneOf api ActorBounds (InBounds # rest) =
     (if \<not> FBox_Intersect api ActorBounds InBounds then IntersectsOneOf api ActorBounds rest
      else True)"

text \<open>The outer loop over the iterator, threading \<^verbatim>\<open>OutActors\<close>.\<close>

fun FindActors_loop ::
  "('w, 'a, 'c, 'b) actor_api \<Rightarrow> 'c option \<Rightarrow> 'b list \<Rightarrow> 'a list option \<Rightarrow> 'a list \<Rightarrow> 'a list
     \<Rightarrow> 'a list" where
  "FindActors_loop api ActorType BBoxes ExcludeActors [] OutActors = OutActors"
| "FindActors_loop api ActorType BBoxes ExcludeActors (CurrentActor # rest) OutActors =
     (if Actor_IsPendingKill api CurrentActor then
        FindActors_loop api ActorType BBoxes ExcludeActors rest OutActors
      else if \<not> IsChildOf api (Actor_GetClass api CurrentActor) ActorType then
        FindActors_loop api ActorType BBoxes ExcludeActors rest OutActors
      else if (case ExcludeActors of None \<Rightarrow> False | Some ex \<Rightarrow> CurrentActor \<in> set ex) then
        FindActors_loop api ActorType BBoxes ExcludeActors rest OutActors
      else if FString_Contains api (Class_GetName api (Actor_GetClass api CurrentActor))
                ''BP_Sky_Sphere'' then
        FindActors_loop api ActorType BBoxes ExcludeActors rest OutActors
      else if IntersectsOneOf api (GetComponentsBoundingBox api CurrentActor True) BBoxes then
        FindActors_loop api ActorType BBoxes ExcludeActors rest (OutActors @ [CurrentActor])
      else
        FindActors_loop api ActorType BBoxes ExcludeActors rest OutActors)"

text \<open>The function returns its \<^verbatim>\<open>bool\<close> together with the final \<^verbatim>\<open>OutActors\<close>.\<close>

definition FindActorsOfClassInBounds ::
  "('w, 'a, 'c, 'b) actor_api \<Rightarrow> 'w option \<Rightarrow> 'c option \<Rightarrow> 'b list \<Rightarrow> 'a list option \<Rightarrow> 'a list
     \<Rightarrow> bool \<times> 'a list" where
  "FindActorsOfClassInBounds api World ActorType BBoxes ExcludeActors OutActors =
     (case World of
        None \<Rightarrow> (False, OutActors)
      | Some w \<Rightarrow>
          if \<not> IsValid_World api World then (False, OutActors)
          else (True, FindActors_loop api ActorType BBoxes ExcludeActors (TActorIterator api w) []))"

section \<open>Safe deletion: \<^verbatim>\<open>SafeDeleteSingleObject\<close> and \<^verbatim>\<open>SafeDeleteObjects\<close>\<close>

text \<open>
  The editor is a state \<open>'s\<close> that the functions below only reach through the calls the
  source makes; each call is a parameter. Calls that can change the editor return the new
  state. Objects are addresses \<open>'o\<close>, packages addresses \<open>'p\<close>, a pointer is an option.
  \<^verbatim>\<open>DoesPackageExist\<close> is applied to the package's name, so the parameter takes the package;
  the test \<^verbatim>\<open>!IsValid(OutPackage) || !DoesPackageExist(...)\<close> is split on the null pointer first.
\<close>

record ('s, 'o, 'p) delete_api =
  Object_IsValid :: "'s \<Rightarrow> 'o \<Rightarrow> bool"
  GatherObjectReferencersForDeletion :: "'s \<Rightarrow> 'o \<Rightarrow> (bool \<times> bool \<times> bool) \<times> 's"
  DeleteSingleObject :: "'s \<Rightarrow> 'o \<Rightarrow> bool \<Rightarrow> bool \<times> 's"
  GetOutermost :: "'s \<Rightarrow> 'o \<Rightarrow> 'p option"
  Package_IsValid :: "'s \<Rightarrow> 'p \<Rightarrow> bool"
  DoesPackageExist :: "'s \<Rightarrow> 'p \<Rightarrow> bool"
  CollectGarbage :: "'s \<Rightarrow> 's"
  CleanupAfterSuccessfulDelete :: "'s \<Rightarrow> 'p option list \<Rightarrow> 's"

text \<open>
  What happened, in order: the calls into the editor that can change it, the warning that
  is logged, and each return of \<^verbatim>\<open>SafeDeleteSingleObject\<close> with its three results.
\<close>

datatype ('o, 'p) event =
    Call_GatherObjectReferencersForDeletion 'o
  | Call_DeleteSingleObject 'o bool
  | Log_Warning 'o
  | Returned "'o option" bool "'p option" bool
  | Call_CollectGarbage
  | Call_CleanupAfterSuccessfulDelete "'p option list"

type_synonym ('s, 'o, 'p) editor = "'s \<times> ('o, 'p) event list"

definition IsValid :: "('s, 'o, 'p) delete_api \<Rightarrow> 's \<Rightarrow> 'o option \<Rightarrow> bool" where
  "IsValid api s p = (case p of None \<Rightarrow> False | Some x \<Rightarrow> Object_IsValid api s x)"

text \<open>
  The result is \<^verbatim>\<open>(bDeleted, OutPackage, bOutPackageIsInMemoryOnly)\<close> and the editor afterwards.
\<close>

definition SafeDeleteSingleObject ::
  "('s, 'o, 'p) delete_api \<Rightarrow> ('s, 'o, 'p) editor \<Rightarrow> 'o option
     \<Rightarrow> bool \<times> 'p option \<times> bool \<times> ('s, 'o, 'p) editor" where
  "SafeDeleteSingleObject api ed InObjectToDelete =
     (case ed of (s, log) \<Rightarrow>
      (case InObjectToDelete of
         None \<Rightarrow> (False, None, False, (s, log @ [Returned InObjectToDelete False None False]))
       | Some obj \<Rightarrow>
           if \<not> Object_IsValid api s obj then
             (False, None, False, (s, log @ [Returned InObjectToDelete False None False]))
           else
             (case GatherObjectReferencersForDeletion api s obj of
                ((gathered, bIsReferenced, bIsReferencedByUndo), s1) \<Rightarrow>
                  let log1 = log @ [Call_GatherObjectReferencersForDeletion obj] in
                  if \<not> gathered then
                    (False, None, False, (s1, log1 @ [Returned InObjectToDelete False None False]))
                  else if bIsReferenced then
                    (False, None, False,
                     (s1, log1 @ [Log_Warning obj, Returned InObjectToDelete False None False]))
                  else
                    (case DeleteSingleObject api s1 obj True of
                       (deleted, s2) \<Rightarrow>
                         let log2 = log1 @ [Call_DeleteSingleObject obj True] in
                         if deleted then
                           (let OutPackage = GetOutermost api s2 obj;
                                bInMemoryOnly =
                                  (case OutPackage of
                                     None \<Rightarrow> True
                                   | Some pkg \<Rightarrow>
                                       \<not> Package_IsValid api s2 pkg \<or> \<not> DoesPackageExist api s2 pkg)
                            in (True, OutPackage, bInMemoryOnly,
                                (s2, log2 @ [Returned InObjectToDelete True OutPackage bInMemoryOnly])))
                         else
                           (False, None, False,
                            (s2, log2 @ [Returned InObjectToDelete False None False]))))))"

text \<open>
  The loop state of \<^verbatim>\<open>SafeDeleteObjects\<close>. A \<^verbatim>\<open>TSet\<close> is a duplicate-free list in insertion
  order (\<^verbatim>\<open>Array()\<close> reads it out in that order); \<^verbatim>\<open>OutObjectsNotDeleted\<close> is a pointer to an
  array and may be null. \<^verbatim>\<open>NumDeleted\<close> is an \<^verbatim>\<open>int32\<close> that is incremented at most once per
  element of a \<^verbatim>\<open>TArray\<close>, whose length is itself an \<^verbatim>\<open>int32\<close>; it is an \<open>int\<close> here.
\<close>

definition TSet_Add :: "'a \<Rightarrow> 'a list \<Rightarrow> 'a list" where
  "TSet_Add x xs = (if x \<in> set xs then xs else xs @ [x])"

record ('s, 'o, 'p) batch =
  NumDeleted :: int
  bGarbageCollectionRequired :: bool
  PackagesToCleanUp :: "'p option list"
  ProcessedObjects :: "'o option list"
  OutObjectsNotDeleted :: "'o option list option"
  Editor :: "('s, 'o, 'p) editor"

text \<open>One pass of the \<^verbatim>\<open>while\<close> body, for the object just popped.\<close>

definition SafeDeleteObjects_body ::
  "('s, 'o, 'p) delete_api \<Rightarrow> 'o option \<Rightarrow> ('s, 'o, 'p) batch \<Rightarrow> ('s, 'o, 'p) batch" where
  "SafeDeleteObjects_body api ObjectToDelete B =
     (if ObjectToDelete \<in> set (ProcessedObjects B) then B
      else
        let B1 = B\<lparr>ProcessedObjects := TSet_Add ObjectToDelete (ProcessedObjects B)\<rparr> in
        if \<not> IsValid api (fst (Editor B1)) ObjectToDelete then B1
        else
          (case SafeDeleteSingleObject api (Editor B1) ObjectToDelete of
             (bDeleted, Package, bInMemoryPackageOnly, ed) \<Rightarrow>
               if bDeleted then
                 (if bInMemoryPackageOnly then
                    B1\<lparr>NumDeleted := NumDeleted B1 + 1,
                       bGarbageCollectionRequired := True,
                       Editor := ed\<rparr>
                  else
                    B1\<lparr>NumDeleted := NumDeleted B1 + 1,
                       PackagesToCleanUp := TSet_Add Package (PackagesToCleanUp B1),
                       Editor := ed\<rparr>)
               else
                 (case OutObjectsNotDeleted B1 of
                    Some nd \<Rightarrow> B1\<lparr>OutObjectsNotDeleted := Some (nd @ [ObjectToDelete]),
                                  Editor := ed\<rparr>
                  | None \<Rightarrow> B1\<lparr>Editor := ed\<rparr>)))"

text \<open>
  The \<^verbatim>\<open>while (InObjectsToDelete.Num() > 0)\<close> loop: \<^verbatim>\<open>Pop()\<close> removes and returns the last
  element. The result carries what is left of the array.
\<close>

function SafeDeleteObjects_loop ::
  "('s, 'o, 'p) delete_api \<Rightarrow> 'o option list \<Rightarrow> ('s, 'o, 'p) batch
     \<Rightarrow> 'o option list \<times> ('s, 'o, 'p) batch" where
  "SafeDeleteObjects_loop api InObjectsToDelete B =
     (if length InObjectsToDelete > 0 then
        SafeDeleteObjects_loop api (butlast InObjectsToDelete)
          (SafeDeleteObjects_body api (last InObjectsToDelete) B)
      else (InObjectsToDelete, B))"
  by pat_completeness auto
termination
  by (relation "measure (\<lambda>(api, xs, B). length xs)") auto

text \<open>
  The result is the returned count, the input array as the function leaves it, the
  not-deleted array and the editor afterwards.
\<close>

definition SafeDeleteObjects ::
  "('s, 'o, 'p) delete_api \<Rightarrow> ('s, 'o, 'p) editor \<Rightarrow> 'o option list \<Rightarrow> 'o option list option
     \<Rightarrow> int \<times> 'o option list \<times> 'o option list option \<times> ('s, 'o, 'p) editor" where
  "SafeDeleteObjects api ed InObjectsToDelete OutNotDeleted =
     (case SafeDeleteObjects_loop api InObjectsToDelete
             \<lparr>NumDeleted = 0, bGarbageCollectionRequired = False, PackagesToCleanUp = [],
              ProcessedObjects = [], OutObjectsNotDeleted = OutNotDeleted, Editor = ed\<rparr> of
        (rest, B) \<Rightarrow>
          let ed1 = (if bGarbageCollectionRequired B \<and> length (PackagesToCleanUp B) \<le> 0
                     then (CollectGarbage api (fst (Editor B)),
                           snd (Editor B) @ [Call_CollectGarbage])
                     else Editor B);
              ed2 = (if length (PackagesToCleanUp B) > 0
                     then (CleanupAfterSuccessfulDelete api (fst ed1) (PackagesToCleanUp B),
                           snd ed1 @ [Call_CleanupAfterSuccessfulDelete (PackagesToCleanUp B)])
                     else ed1)
          in (NumDeleted B, rest, OutObjectsNotDeleted B, ed2))"


section \<open>Property propagation: \<^verbatim>\<open>CopyComponentProperties\<close>\<close>

text \<open>
  Reflection data. A property carries its name and its flags; of the engine's flag bits
  only the six the function tests are named. Components and actors are addresses; a
  \<^verbatim>\<open>UObject*\<close> that may be either, or neither, is tagged with what it points to, which is what
  \<^verbatim>\<open>Cast\<close> and \<^verbatim>\<open>CastChecked\<close> look at.
\<close>

datatype EPropertyFlags =
    CPF_Transient | CPF_InstancedReference | CPF_ContainsInstancedReference
  | CPF_Edit | CPF_Interp | CPF_DisableEditOnTemplate

record FProperty =
  FName :: string
  PropertyFlags :: "EPropertyFlags set"

datatype ECopyOptions =
    PreviewOnly | CallPostEditChangeProperty | PropagateChangesToArchetypeInstances
  | OnlyCopyEditOrInterpProperties | SkipInstanceOnlyProperties

record FCopyOptions =
  Flags :: "ECopyOptions set"
  CanCopyProperty :: "FProperty \<Rightarrow> nat \<Rightarrow> bool"

datatype UObject = Component nat | Actor nat | PlainObject nat

datatype notification = PreEditChange nat FProperty | PostEditChangeProperty nat FProperty

text \<open>
  What the function reads but never changes: the class of a component and the class's
  property list (\<^verbatim>\<open>PropertyLink\<close> followed along \<^verbatim>\<open>PropertyLinkNext\<close>), the archetype instances
  of a component, the properties its construction script modified, its archetype, whether
  a construction script created it, its owner, and the three transform property names of
  \<^verbatim>\<open>USceneComponent\<close>.
\<close>

record 'c component_api =
  GetClass :: "nat \<Rightarrow> 'c"
  PropertyLink :: "'c \<Rightarrow> FProperty list"
  GetArchetypeInstances :: "nat \<Rightarrow> UObject list"
  GetUCSModifiedProperties :: "nat \<Rightarrow> FProperty set"
  GetArchetype :: "nat \<Rightarrow> UObject option"
  IsCreatedByConstructionScript :: "nat \<Rightarrow> bool"
  GetOwner :: "nat \<Rightarrow> nat option"
  GetRelativeScale3DPropertyName :: string
  GetRelativeLocationPropertyName :: string
  GetRelativeRotationPropertyName :: string

text \<open>
  What the function can change: the value of each property in each component, which objects
  carry \<^verbatim>\<open>RF_Transactional\<close>, the objects \<^verbatim>\<open>Modify()\<close> recorded for undo (in call order), which
  components are registered, and the edit notifications sent.
\<close>

record 'v objects =
  PropertyValue :: "nat \<Rightarrow> FProperty \<Rightarrow> 'v"
  HasRF_Transactional :: "UObject set"
  RecordedForUndo :: "UObject list"
  IsRegistered :: "nat \<Rightarrow> bool"
  Notified :: "notification list"

text \<open>
  The engine calls made on that state. \<^verbatim>\<open>PreEditChange\<close> and \<^verbatim>\<open>PostEditChangeProperty\<close> are
  virtual notifications whose handlers are not part of this code: they are recorded only.
\<close>

definition Identical_InContainer :: "'v objects \<Rightarrow> FProperty \<Rightarrow> nat \<Rightarrow> nat \<Rightarrow> bool" where
  "Identical_InContainer S Prop A B = (PropertyValue S A Prop = PropertyValue S B Prop)"

definition CopySingleProperty :: "nat \<Rightarrow> nat \<Rightarrow> FProperty \<Rightarrow> 'v objects \<Rightarrow> 'v objects" where
  "CopySingleProperty Src Dst Prop S =
     S\<lparr>PropertyValue := (PropertyValue S)(Dst := (PropertyValue S Dst)(Prop := PropertyValue S Src Prop))\<rparr>"

definition SetFlags_RF_Transactional :: "UObject \<Rightarrow> 'v objects \<Rightarrow> 'v objects" where
  "SetFlags_RF_Transactional obj S = S\<lparr>HasRF_Transactional := insert obj (HasRF_Transactional S)\<rparr>"

definition Modify :: "UObject \<Rightarrow> 'v objects \<Rightarrow> 'v objects" where
  "Modify obj S = S\<lparr>RecordedForUndo := RecordedForUndo S @ [obj]\<rparr>"

definition Notify :: "notification \<Rightarrow> 'v objects \<Rightarrow> 'v objects" where
  "Notify n S = S\<lparr>Notified := Notified S @ [n]\<rparr>"

definition UnregisterComponent :: "nat \<Rightarrow> 'v objects \<Rightarrow> 'v objects" where
  "UnregisterComponent c S = S\<lparr>IsRegistered := (IsRegistered S)(c := False)\<rparr>"

definition RegisterComponent :: "nat \<Rightarrow> 'v objects \<Rightarrow> 'v objects" where
  "RegisterComponent c S = S\<lparr>IsRegistered := (IsRegistered S)(c := True)\<rparr>"

text \<open>
  \<^verbatim>\<open>Cast<UActorComponent>\<close> gives null for anything but a component. \<^verbatim>\<open>CastChecked\<close> is fatal
  on a null pointer and on a failed cast; a fatal error, like a failed \<^verbatim>\<open>check\<close>, is the
  result \<open>None\<close>: the function does not return.
\<close>

definition Cast_UActorComponent :: "UObject option \<Rightarrow> nat option" where
  "Cast_UActorComponent p = (case p of Some (Component c) \<Rightarrow> Some c | _ \<Rightarrow> None)"

definition CastChecked_UActorComponent :: "UObject option \<Rightarrow> nat option" where
  "CastChecked_UActorComponent p = (case p of Some (Component c) \<Rightarrow> Some c | _ \<Rightarrow> None)"

text \<open>
  Lines 232 to 239: the instances of the target that are components and are neither the
  source nor the target. Only non-null pointers enter \<^verbatim>\<open>ComponentArchetypeInstances\<close>, so the
  array is a list of addresses and the two later tests against \<^verbatim>\<open>nullptr\<close> hold.
\<close>

fun CollectInstances :: "nat \<Rightarrow> nat \<Rightarrow> UObject list \<Rightarrow> nat list \<Rightarrow> nat list" where
  "CollectInstances SourceComponent TargetComponent [] acc = acc"
| "CollectInstances SourceComponent TargetComponent (ObjInstance # rest) acc =
     (case Cast_UActorComponent (Some ObjInstance) of
        Some ComponentInstance \<Rightarrow>
          if ComponentInstance \<noteq> SourceComponent \<and> ComponentInstance \<noteq> TargetComponent
          then CollectInstances SourceComponent TargetComponent rest (acc @ [ComponentInstance])
          else CollectInstances SourceComponent TargetComponent rest acc
      | None \<Rightarrow> CollectInstances SourceComponent TargetComponent rest acc)"

text \<open>
  Lines 319 to 327: the walk up the archetypes, from \<^verbatim>\<open>CheckComponent\<close> until it meets the
  instance again. It gives \<^verbatim>\<open>bAdd\<close>; it does not return when a \<^verbatim>\<open>CastChecked\<close> is fatal or
  when the walk never ends.
\<close>

partial_function (option) WalkArchetypes ::
  "'c component_api \<Rightarrow> 'v objects \<Rightarrow> FProperty \<Rightarrow> nat \<Rightarrow> nat \<Rightarrow> nat \<Rightarrow> bool option" where
  "WalkArchetypes api S Prop TargetComponent ComponentArchetypeInstance CheckComponent =
     (if CheckComponent \<noteq> ComponentArchetypeInstance then
        if \<not> Identical_InContainer S Prop CheckComponent TargetComponent then Some False
        else
          (case CastChecked_UActorComponent (GetArchetype api CheckComponent) of
             None \<Rightarrow> None
           | Some Next \<Rightarrow>
               WalkArchetypes api S Prop TargetComponent ComponentArchetypeInstance Next)
      else Some True)"

text \<open>Lines 314 to 328: \<^verbatim>\<open>bAdd\<close> for one instance whose value matches the target's.\<close>

definition ShouldAdd ::
  "'c component_api \<Rightarrow> 'v objects \<Rightarrow> FProperty \<Rightarrow> nat \<Rightarrow> nat \<Rightarrow> bool option" where
  "ShouldAdd api S Prop TargetComponent ComponentArchetypeInstance =
     (if GetArchetype api ComponentArchetypeInstance \<noteq> Some (Component TargetComponent) then
        (case CastChecked_UActorComponent (GetArchetype api ComponentArchetypeInstance) of
           None \<Rightarrow> None
         | Some CheckComponent \<Rightarrow>
             WalkArchetypes api S Prop TargetComponent ComponentArchetypeInstance CheckComponent)
      else Some True)"

text \<open>Lines 310 to 335: the loop that fills \<^verbatim>\<open>ComponentArchetypeInstancesToChange\<close>.\<close>

fun InstancesToChange ::
  "'c component_api \<Rightarrow> 'v objects \<Rightarrow> FProperty \<Rightarrow> nat \<Rightarrow> nat list \<Rightarrow> nat list \<Rightarrow> nat list option"
  where
  "InstancesToChange api S Prop TargetComponent [] acc = Some acc"
| "InstancesToChange api S Prop TargetComponent (Inst # rest) acc =
     (if Identical_InContainer S Prop Inst TargetComponent then
        (case ShouldAdd api S Prop TargetComponent Inst of
           None \<Rightarrow> None
         | Some bAdd \<Rightarrow>
             if bAdd then InstancesToChange api S Prop TargetComponent rest (acc @ [Inst])
             else InstancesToChange api S Prop TargetComponent rest acc)
      else InstancesToChange api S Prop TargetComponent rest acc)"

text \<open>
  Lines 350 to 380: one pass of the loop over the instances to change. It threads the
  state, the set \<^verbatim>\<open>ModifiedObjects\<close> and the array \<^verbatim>\<open>ComponentInstancesToReregister\<close>.
\<close>

definition PropagateToInstance ::
  "'c component_api \<Rightarrow> FProperty \<Rightarrow> nat \<Rightarrow> nat
     \<Rightarrow> 'v objects \<times> UObject set \<times> nat list \<Rightarrow> 'v objects \<times> UObject set \<times> nat list" where
  "PropagateToInstance api Prop TargetComponent Inst X =
     (case X of (S, ModifiedObjects, ToReregister) \<Rightarrow>
      let (S2, M2) =
            (if Component Inst \<notin> ModifiedObjects then
               let (S1, M1) =
                     (if \<not> IsCreatedByConstructionScript api Inst then
                        (Modify (Component Inst) (SetFlags_RF_Transactional (Component Inst) S),
                         insert (Component Inst) ModifiedObjects)
                      else (S, ModifiedObjects))
               in (case GetOwner api Inst of
                     Some Owner \<Rightarrow>
                       if Actor Owner \<notin> M1 then (Modify (Actor Owner) S1, insert (Actor Owner) M1)
                       else (S1, M1)
                   | None \<Rightarrow> (S1, M1))
             else (S, ModifiedObjects));
          (S3, R3) =
            (if IsRegistered S2 Inst then (UnregisterComponent Inst S2, ToReregister @ [Inst])
             else (S2, ToReregister))
      in (CopySingleProperty TargetComponent Inst Prop S3, M2, R3))"

text \<open>
  Lines 250 to 392: the body of the loop over the properties, threading the state, the
  count and the array of components to register again. \<^verbatim>\<open>bTransformChanged\<close> is never read
  and is left out.
\<close>

definition CopyProperty_body ::
  "'c component_api \<Rightarrow> FCopyOptions \<Rightarrow> nat \<Rightarrow> nat \<Rightarrow> nat list \<Rightarrow> FProperty set \<Rightarrow> FProperty
     \<Rightarrow> 'v objects \<times> int \<times> nat list \<Rightarrow> ('v objects \<times> int \<times> nat list) option" where
  "CopyProperty_body api Options SourceComponent TargetComponent ComponentArchetypeInstances
       SourceUCSModifiedProperties Prop X =
     (case X of (S, CopiedPropertyCount, ToReregister) \<Rightarrow>
      let bIsPreviewing = (PreviewOnly \<in> Flags Options);
          bIsTransient = (CPF_Transient \<in> PropertyFlags Prop);
          bIsIdentical = Identical_InContainer S Prop SourceComponent TargetComponent;
          bIsComponent = (CPF_InstancedReference \<in> PropertyFlags Prop
                          \<or> CPF_ContainsInstancedReference \<in> PropertyFlags Prop);
          bIsTransform = (FName Prop = GetRelativeScale3DPropertyName api
                          \<or> FName Prop = GetRelativeLocationPropertyName api
                          \<or> FName Prop = GetRelativeRotationPropertyName api);
          ModifiedObjects = {}
      in
      if \<not> bIsTransient \<and> \<not> bIsIdentical \<and> \<not> bIsComponent
         \<and> Prop \<notin> SourceUCSModifiedProperties \<and> \<not> bIsTransform
      then
        let bIsSafeToCopy =
              ((OnlyCopyEditOrInterpProperties \<notin> Flags Options
                \<or> (CPF_Edit \<in> PropertyFlags Prop \<or> CPF_Interp \<in> PropertyFlags Prop))
               \<and> (SkipInstanceOnlyProperties \<notin> Flags Options
                  \<or> CPF_DisableEditOnTemplate \<notin> PropertyFlags Prop))
        in
        if bIsSafeToCopy then
          if \<not> CanCopyProperty Options Prop SourceComponent then
            Some (S, CopiedPropertyCount, ToReregister)
          else if \<not> bIsPreviewing then
            (let (S1, M1) =
                   (if Component TargetComponent \<notin> ModifiedObjects then
                      (Modify (Component TargetComponent)
                         (SetFlags_RF_Transactional (Component TargetComponent) S),
                       insert (Component TargetComponent) ModifiedObjects)
                    else (S, ModifiedObjects));
                 S2 = (if CallPostEditChangeProperty \<in> Flags Options
                       then Notify (PreEditChange TargetComponent Prop) S1 else S1)
             in
             (case (if PropagateChangesToArchetypeInstances \<in> Flags Options
                    then InstancesToChange api S2 Prop TargetComponent
                           ComponentArchetypeInstances []
                    else Some []) of
                None \<Rightarrow> None
              | Some ComponentArchetypeInstancesToChange \<Rightarrow>
                  let S3 = CopySingleProperty SourceComponent TargetComponent Prop S2;
                      S4 = (if CallPostEditChangeProperty \<in> Flags Options
                            then Notify (PostEditChangeProperty TargetComponent Prop) S3
                            else S3);
                      (S5, M5, R5) =
                        (if PropagateChangesToArchetypeInstances \<in> Flags Options
                         then fold (PropagateToInstance api Prop TargetComponent)
                                ComponentArchetypeInstancesToChange (S4, M1, ToReregister)
                         else (S4, M1, ToReregister))
                  in Some (S5, CopiedPropertyCount + 1, R5)))
          else Some (S, CopiedPropertyCount + 1, ToReregister)
        else Some (S, CopiedPropertyCount, ToReregister)
      else Some (S, CopiedPropertyCount, ToReregister))"

text \<open>Line 248: the loop along the property list.\<close>

fun CopyProperties_loop ::
  "'c component_api \<Rightarrow> FCopyOptions \<Rightarrow> nat \<Rightarrow> nat \<Rightarrow> nat list \<Rightarrow> FProperty set \<Rightarrow> FProperty list
     \<Rightarrow> 'v objects \<times> int \<times> nat list \<Rightarrow> ('v objects \<times> int \<times> nat list) option" where
  "CopyProperties_loop api Options Src Tgt Insts UCS [] X = Some X"
| "CopyProperties_loop api Options Src Tgt Insts UCS (Prop # rest) X =
     (case CopyProperty_body api Options Src Tgt Insts UCS Prop X of
        None \<Rightarrow> None
      | Some X1 \<Rightarrow> CopyProperties_loop api Options Src Tgt Insts UCS rest X1)"

text \<open>
  The function: the returned count and the state afterwards, or \<open>None\<close> when the \<^verbatim>\<open>check\<close> that
  the two components have one class fails or the archetype walk does not return. The
  count is an \<^verbatim>\<open>int32\<close> bounded by the number of properties of a class; it is an \<open>int\<close> here.
\<close>

definition CopyComponentProperties ::
  "'c component_api \<Rightarrow> 'v objects \<Rightarrow> nat \<Rightarrow> nat \<Rightarrow> FCopyOptions \<Rightarrow> (int \<times> 'v objects) option" where
  "CopyComponentProperties api S SourceComponent TargetComponent Options =
     (let ComponentClass = GetClass api SourceComponent in
      if ComponentClass \<noteq> GetClass api TargetComponent then None
      else
        let ComponentArchetypeInstances =
              (if PropagateChangesToArchetypeInstances \<in> Flags Options
               then CollectInstances SourceComponent TargetComponent
                      (GetArchetypeInstances api TargetComponent) []
               else []);
            SourceUCSModifiedProperties = GetUCSModifiedProperties api SourceComponent
        in
        (case CopyProperties_loop api Options SourceComponent TargetComponent
                ComponentArchetypeInstances SourceUCSModifiedProperties
                (PropertyLink api ComponentClass) (S, 0, []) of
           None \<Rightarrow> None
         | Some (S1, CopiedPropertyCount, ComponentInstancesToReregister) \<Rightarrow>
             Some (CopiedPropertyCount, fold RegisterComponent ComponentInstancesToReregister S1)))"

text \<open>
  Readings of a log: the objects \<^verbatim>\<open>DeleteSingleObject\<close> was called on, the returns of
  \<^verbatim>\<open>SafeDeleteSingleObject\<close> as tuples, and the garbage collections and package cleanups.
\<close>

primrec deletions :: "('o, 'p) event list \<Rightarrow> 'o list" where
  "deletions [] = []"
| "deletions (e # es) =
     (case e of Call_DeleteSingleObject x b \<Rightarrow> x # deletions es | _ \<Rightarrow> deletions es)"

primrec returns :: "('o, 'p) event list \<Rightarrow> ('o option \<times> bool \<times> 'p option \<times> bool) list" where
  "returns [] = []"
| "returns (e # es) =
     (case e of Returned x d p m \<Rightarrow> (x, d, p, m) # returns es | _ \<Rightarrow> returns es)"

primrec collections :: "('o, 'p) event list \<Rightarrow> ('o, 'p) event list" where
  "collections [] = []"
| "collections (e # es) =
     (case e of Call_CollectGarbage \<Rightarrow> e # collections es
      | Call_CleanupAfterSuccessfulDelete ps \<Rightarrow> e # collections es
      | _ \<Rightarrow> collections es)"


text \<open>
  How one or more passes of the loop relate the batch before and after to the events they
  logged: each field is the old one advanced by what the returns in the new events say.
\<close>

definition batch_step ::
  "('s, 'o, 'p) batch \<Rightarrow> ('o, 'p) event list \<Rightarrow> ('s, 'o, 'p) batch \<Rightarrow> bool" where
  "batch_step B new B' \<longleftrightarrow>
     snd (Editor B') = snd (Editor B) @ new
     \<and> NumDeleted B' = NumDeleted B + int (length (filter (\<lambda>r. fst (snd r)) (returns new)))
     \<and> bGarbageCollectionRequired B' =
         (bGarbageCollectionRequired B
          \<or> filter (\<lambda>r. fst (snd r) \<and> snd (snd (snd r))) (returns new) \<noteq> [])
     \<and> PackagesToCleanUp B' =
         fold TSet_Add
           (map (\<lambda>r. fst (snd (snd r)))
              (filter (\<lambda>r. fst (snd r) \<and> \<not> snd (snd (snd r))) (returns new)))
           (PackagesToCleanUp B)
     \<and> OutObjectsNotDeleted B' =
         map_option (\<lambda>nd. nd @ map fst (filter (\<lambda>r. \<not> fst (snd r)) (returns new)))
           (OutObjectsNotDeleted B)"


text \<open>
  The batch at the moment an element of the input array is popped: \<^verbatim>\<open>Pop()\<close> takes the last
  element, so the loop has by then run on exactly the elements after it.
\<close>

definition batch_at_pop ::
  "('s, 'o, 'p) delete_api \<Rightarrow> ('s, 'o, 'p) editor \<Rightarrow> 'o option list option \<Rightarrow> 'o option list
     \<Rightarrow> ('s, 'o, 'p) batch" where
  "batch_at_pop api ed OutNotDeleted after =
     snd (SafeDeleteObjects_loop api after
            \<lparr>NumDeleted = 0, bGarbageCollectionRequired = False, PackagesToCleanUp = [],
             ProcessedObjects = [], OutObjectsNotDeleted = OutNotDeleted, Editor = ed\<rparr>)"

text \<open>
  Vocabulary for the statements about \<^verbatim>\<open>CopyComponentProperties\<close>: the archetype relation between
  components; that an instance's archetypes agree with the target on a property (its direct
  archetype is the target, or every component reached from the instance along archetypes
  has the target's value); the tests of lines 276 to 287 that do not depend on the values;
  and that an object carries \<^verbatim>\<open>RF_Transactional\<close> and was recorded by \<^verbatim>\<open>Modify()\<close>.
\<close>

definition archetype_of :: "'c component_api \<Rightarrow> (nat \<times> nat) set" where
  "archetype_of api = {(a, b). GetArchetype api a = Some (Component b)}"

definition chain_matches ::
  "'c component_api \<Rightarrow> 'v objects \<Rightarrow> FProperty \<Rightarrow> nat \<Rightarrow> nat \<Rightarrow> bool" where
  "chain_matches api S Prop TargetComponent Inst \<longleftrightarrow>
     GetArchetype api Inst = Some (Component TargetComponent)
     \<or> (\<forall>c. (Inst, c) \<in> (archetype_of api)\<^sup>+
            \<longrightarrow> PropertyValue S c Prop = PropertyValue S TargetComponent Prop)"

definition passes_filters ::
  "'c component_api \<Rightarrow> FCopyOptions \<Rightarrow> nat \<Rightarrow> FProperty \<Rightarrow> bool" where
  "passes_filters api Options SourceComponent Prop \<longleftrightarrow>
     CPF_Transient \<notin> PropertyFlags Prop
     \<and> CPF_InstancedReference \<notin> PropertyFlags Prop
     \<and> CPF_ContainsInstancedReference \<notin> PropertyFlags Prop
     \<and> Prop \<notin> GetUCSModifiedProperties api SourceComponent
     \<and> FName Prop \<noteq> GetRelativeScale3DPropertyName api
     \<and> FName Prop \<noteq> GetRelativeLocationPropertyName api
     \<and> FName Prop \<noteq> GetRelativeRotationPropertyName api
     \<and> (OnlyCopyEditOrInterpProperties \<in> Flags Options
          \<longrightarrow> CPF_Edit \<in> PropertyFlags Prop \<or> CPF_Interp \<in> PropertyFlags Prop)
     \<and> (SkipInstanceOnlyProperties \<in> Flags Options
          \<longrightarrow> CPF_DisableEditOnTemplate \<notin> PropertyFlags Prop)
     \<and> CanCopyProperty Options Prop SourceComponent"

definition marked :: "'v objects \<Rightarrow> UObject \<Rightarrow> bool" where
  "marked S obj \<longleftrightarrow> obj \<in> HasRF_Transactional S \<and> obj \<in> set (RecordedForUndo S)"


text \<open>The whole test of lines 276 to 287 in a state: the filters pass and the values differ.\<close>

definition copy_cond ::
  "'c component_api \<Rightarrow> FCopyOptions \<Rightarrow> nat \<Rightarrow> nat \<Rightarrow> 'v objects \<Rightarrow> FProperty \<Rightarrow> bool" where
  "copy_cond api Options SourceComponent TargetComponent S Prop \<longleftrightarrow>
     passes_filters api Options SourceComponent Prop
     \<and> PropertyValue S SourceComponent Prop \<noteq> PropertyValue S TargetComponent Prop"

text \<open>Lines 227 to 240: the array \<^verbatim>\<open>ComponentArchetypeInstances\<close> as the function builds it.\<close>

definition instances_of :: "'c component_api \<Rightarrow> FCopyOptions \<Rightarrow> nat \<Rightarrow> nat \<Rightarrow> nat list" where
  "instances_of api Options Src Tgt =
     (if PropagateChangesToArchetypeInstances \<in> Flags Options
      then CollectInstances Src Tgt (GetArchetypeInstances api Tgt) [] else [])"


section \<open>Concrete instances\<close>

text \<open>Small engines and inputs on which the theorems below are instantiated.\<close>

definition example_path_api :: "(string, string) path_api" where
  "example_path_api =
     \<lparr>FPaths_GetPath = (\<lambda>p. p), FString_FromInt = (\<lambda>w. ''n''),
      FGuid_ToString = (\<lambda>g. ''guid''), World_GetPathName = (\<lambda>w. w),
      GetPackagePath = (\<lambda>P. if PackageMode P = Bake then BakeFolder P else TempCookFolder P),
      ValueT = (\<lambda>v. v)\<rparr>"

definition example_params :: "EPackageMode \<Rightarrow> FHoudiniPackageParams" where
  "example_params m =
     \<lparr>PackageMode = m, ReplaceMode = ReplaceExistingAssets, BakeFolder = ''/Game/Bake'',
      TempCookFolder = ''/Game/Temp'', OuterPackage = None, ObjectName = ''obj'',
      HoudiniAssetName = ''hda'', HoudiniAssetActorName = ''actor'', ObjectId = 1, GeoId = 2,
      PartId = 3, SplitStr = ''main'',
      ComponentGUID = \<lparr>GuidA = 0, GuidB = 0, GuidC = 0, GuidD = 0\<rparr>,
      PDGTOPNetworkName = ''net'', PDGTOPNodeName = ''node'', PDGWorkItemIndex = 0,
      bAttemptToLoadMissingPackages = False\<rparr>"

definition example_delete_api :: "(nat set, nat, nat) delete_api" where
  "example_delete_api =
     \<lparr>Object_IsValid = (\<lambda>s x. x \<notin> s),
      GatherObjectReferencersForDeletion = (\<lambda>s x. ((True, x = 5, False), s)),
      DeleteSingleObject = (\<lambda>s x b. (True, insert x s)),
      GetOutermost = (\<lambda>s x. Some (x + 100)),
      Package_IsValid = (\<lambda>s p. True),
      DoesPackageExist = (\<lambda>s p. p = 102),
      CollectGarbage = (\<lambda>s. s),
      CleanupAfterSuccessfulDelete = (\<lambda>s ps. s)\<rparr>"


text \<open>
  A component class with three properties. Component 5 is the source, component 2 the
  target; components 3 and 4 are archetype instances of the target, 4 created by a
  construction script; actor 7 owns component 3. The source holds 10 everywhere, the
  others 0, but for \<^verbatim>\<open>Mass\<close> in component 4.
\<close>

definition p_location :: FProperty where
  "p_location = \<lparr>FName = ''RelativeLocation'', PropertyFlags = {CPF_Edit}\<rparr>"

definition p_mass :: FProperty where
  "p_mass = \<lparr>FName = ''Mass'', PropertyFlags = {CPF_Edit}\<rparr>"

definition p_cache :: FProperty where
  "p_cache = \<lparr>FName = ''Cache'', PropertyFlags = {CPF_Transient}\<rparr>"

definition example_component_api :: "nat component_api" where
  "example_component_api =
     \<lparr>GetClass = (\<lambda>c. 0),
      PropertyLink = (\<lambda>k. [p_location, p_mass, p_cache]),
      GetArchetypeInstances = (\<lambda>c. if c = 2 then [Component 3, Component 4, Actor 7] else []),
      GetUCSModifiedProperties = (\<lambda>c. {}),
      GetArchetype = (\<lambda>c. if c = 3 \<or> c = 4 then Some (Component 2) else None),
      IsCreatedByConstructionScript = (\<lambda>c. c = 4),
      GetOwner = (\<lambda>c. if c = 3 then Some 7 else None),
      GetRelativeScale3DPropertyName = ''RelativeScale3D'',
      GetRelativeLocationPropertyName = ''RelativeLocation'',
      GetRelativeRotationPropertyName = ''RelativeRotation''\<rparr>"

definition example_objects :: "int objects" where
  "example_objects =
     \<lparr>PropertyValue = (\<lambda>c q. if c = 5 then 10 else if c = 4 \<and> q = p_mass then 5 else 0),
      HasRF_Transactional = {},
      RecordedForUndo = [],
      IsRegistered = (\<lambda>c. c = 3),
      Notified = []\<rparr>"

definition example_options :: "ECopyOptions set \<Rightarrow> FCopyOptions" where
  "example_options fl = \<lparr>Flags = fl, CanCopyProperty = (\<lambda>p c. True)\<rparr>"

text \<open>The state after the target alone is changed, and after instance 3 is changed as well.\<close>

definition example_after_copy :: "int objects" where
  "example_after_copy =
     CopySingleProperty 5 2 p_mass
       (Modify (Component 2) (SetFlags_RF_Transactional (Component 2) example_objects))"

definition example_after_propagation :: "int objects" where
  "example_after_propagation =
     RegisterComponent 3
       (CopySingleProperty 2 3 p_mass
         (UnregisterComponent 3
           (Modify (Actor 7)
             (Modify (Component 3)
               (SetFlags_RF_Transactional (Component 3) example_after_copy)))))"

section \<open>Theorems: package parameters\<close>

lemma UpdateOutputPathTokens_other:
  "k \<notin> {''temp'', ''bake'', ''out_basepath'', ''out''} \<Longrightarrow>
   UpdateOutputPathTokens api P m toks k = toks k"
  by (cases m) (simp_all add: UpdateOutputPathTokens_def TMap_Add_def Let_def)

text \<open>
  Claim C8. Whatever the parameters and the tokens already present, \<^verbatim>\<open>UpdateOutputPathTokens\<close>
  stores under \<^verbatim>\<open>out_basepath\<close> the path of \<^verbatim>\<open>TempCookFolder\<close> for the modes \<^verbatim>\<open>CookToTemp\<close> and
  \<^verbatim>\<open>CookToLevel\<close> and the path of \<^verbatim>\<open>BakeFolder\<close> for the mode \<^verbatim>\<open>Bake\<close>; called from
  \<^verbatim>\<open>UpdateTokensFromParams\<close> the mode is the struct's own \<^verbatim>\<open>PackageMode\<close>, and no later token
  replaces the entry.
\<close>

theorem UpdateOutputPathTokens_out_basepath:
  "UpdateOutputPathTokens api P m toks ''out_basepath'' =
     Some (ValueT api (FPaths_GetPath api
        (case m of CookToLevel \<Rightarrow> TempCookFolder P | CookToTemp \<Rightarrow> TempCookFolder P
         | Bake \<Rightarrow> BakeFolder P)))
   \<and> UpdateTokensFromParams api P w toks ''out_basepath'' =
     Some (ValueT api (FPaths_GetPath api
        (case PackageMode P of CookToLevel \<Rightarrow> TempCookFolder P | CookToTemp \<Rightarrow> TempCookFolder P
         | Bake \<Rightarrow> BakeFolder P)))"
proof -
  have a: "UpdateOutputPathTokens api P m toks ''out_basepath'' =
     Some (ValueT api (FPaths_GetPath api
        (case m of CookToLevel \<Rightarrow> TempCookFolder P | CookToTemp \<Rightarrow> TempCookFolder P
         | Bake \<Rightarrow> BakeFolder P)))" for m
    by (cases m) (simp_all add: UpdateOutputPathTokens_def TMap_Add_def Let_def)
  have "UpdateTokensFromParams api P w toks ''out_basepath'' =
        UpdateOutputPathTokens api P (PackageMode P) toks ''out_basepath''"
    by (simp add: UpdateTokensFromParams_def TMap_Add_def Let_def)
  with a show ?thesis by simp
qed

theorem UpdateOutputPathTokens_out_basepath_witness:
  "UpdateOutputPathTokens example_path_api (example_params Bake) Bake Map.empty ''out_basepath''
     = Some ''/Game/Bake''
   \<and> UpdateTokensFromParams example_path_api (example_params CookToLevel) ''/Game/Maps/L''
       Map.empty ''out_basepath'' = Some ''/Game/Temp''"
  using UpdateOutputPathTokens_out_basepath
          [where api = example_path_api and P = "example_params Bake" and m = Bake
             and toks = Map.empty]
        UpdateOutputPathTokens_out_basepath
          [where api = example_path_api and P = "example_params CookToLevel"
             and w = "''/Game/Maps/L''" and toks = Map.empty]
  by (simp add: example_path_api_def example_params_def)

lemma UpdateTokensFromParams_pkg_untouched:
  "UpdateTokensFromParams api P w toks ''pkg'' = toks ''pkg''"
proof -
  have "UpdateTokensFromParams api P w toks ''pkg'' =
        UpdateOutputPathTokens api P (PackageMode P) toks ''pkg''"
    by (simp add: UpdateTokensFromParams_def TMap_Add_def Let_def)
  then show ?thesis by (simp add: UpdateOutputPathTokens_other)
qed

text \<open>
  Claim C7. The comment above \<^verbatim>\<open>UpdateTokensFromParams\<close> lists \<^verbatim>\<open>{out}\<close>, \<^verbatim>\<open>{pkg}\<close>, \<^verbatim>\<open>{world}\<close>,
  \<^verbatim>\<open>{hda_name}\<close> and \<^verbatim>\<open>{guid}\<close>. Started on an empty map for a parameter struct in bake mode, the
  function leaves no entry under \<^verbatim>\<open>pkg\<close>: the key is never added.
\<close>

theorem UpdateTokensFromParams_no_pkg_token:
  "UpdateTokensFromParams example_path_api (example_params Bake) ''/Game/Maps/L'' Map.empty ''pkg''
     = None
   \<and> ''pkg'' \<notin> dom (UpdateTokensFromParams example_path_api (example_params Bake)
                       ''/Game/Maps/L'' Map.empty)"
  by (simp add: UpdateTokensFromParams_pkg_untouched domIff)

text \<open>The keys the function does add, sixteen in all.\<close>

lemma UpdateTokensFromParams_dom:
  "dom (UpdateTokensFromParams api P w toks) = dom toks \<union>
     {''temp'', ''bake'', ''out_basepath'', ''out'', ''world'', ''object_name'', ''object_id'',
      ''geo_id'', ''part_id'', ''split_str'', ''hda_name'', ''hda_actor_name'',
      ''pdg_topnet_name'', ''pdg_topnode_name'', ''pdg_workitem_index'', ''guid''}"
  by (cases "PackageMode P")
     (auto simp add: UpdateTokensFromParams_def UpdateOutputPathTokens_def TMap_Add_def Let_def)


section \<open>Theorems: actors in bounds\<close>

lemma IntersectsOneOf_iff:
  "IntersectsOneOf api ab bs = (\<exists>b\<in>set bs. FBox_Intersect api ab b)"
  by (induction bs) auto

lemma FindActors_loop_filter:
  "FindActors_loop api ActorType BBoxes Excl xs out =
     out @ filter (\<lambda>a. \<not> Actor_IsPendingKill api a
                      \<and> IsChildOf api (Actor_GetClass api a) ActorType
                      \<and> (case Excl of None \<Rightarrow> True | Some ex \<Rightarrow> a \<notin> set ex)
                      \<and> \<not> FString_Contains api (Class_GetName api (Actor_GetClass api a)) ''BP_Sky_Sphere''
                      \<and> (\<exists>b\<in>set BBoxes. FBox_Intersect api (GetComponentsBoundingBox api a True) b)) xs"
  by (induction xs arbitrary: out) (auto simp: IntersectsOneOf_iff split: option.splits)

text \<open>
  Claim C6. For a null or pending-kill world the function returns false and leaves
  \<^verbatim>\<open>OutActors\<close> as it was. For a valid world it returns true and \<^verbatim>\<open>OutActors\<close> is, in iteration
  order, exactly the actors of the world that are valid, whose class is a child of the given
  class, that are not in the exclusion array when one is given, whose class name does not
  contain \<^verbatim>\<open>BP_Sky_Sphere\<close>, and whose bounding box intersects one of the given boxes.
\<close>

theorem FindActorsOfClassInBounds_exact:
  "FindActorsOfClassInBounds api World ActorType BBoxes Excl Out =
     (case World of
        None \<Rightarrow> (False, Out)
      | Some w \<Rightarrow>
          if World_IsPendingKill api w then (False, Out)
          else (True,
                filter (\<lambda>a. \<not> Actor_IsPendingKill api a
                      \<and> IsChildOf api (Actor_GetClass api a) ActorType
                      \<and> (case Excl of None \<Rightarrow> True | Some ex \<Rightarrow> a \<notin> set ex)
                      \<and> \<not> FString_Contains api (Class_GetName api (Actor_GetClass api a)) ''BP_Sky_Sphere''
                      \<and> (\<exists>b\<in>set BBoxes. FBox_Intersect api (GetComponentsBoundingBox api a True) b))
                  (TActorIterator api w)))"
  by (simp add: FindActorsOfClassInBounds_def IsValid_World_def FindActors_loop_filter
           split: option.splits)


section \<open>Theorems: safe deletion\<close>

lemma deletions_append [simp]: "deletions (a @ b) = deletions a @ deletions b"
  by (induction a) (auto split: event.splits)
lemma returns_append [simp]: "returns (a @ b) = returns a @ returns b"
  by (induction a) (auto split: event.splits)
lemma collections_append [simp]: "collections (a @ b) = collections a @ collections b"
  by (induction a) (auto split: event.splits)

text \<open>
  Claim C1. For a valid object on which \<^verbatim>\<open>GatherObjectReferencersForDeletion\<close> sets
  \<^verbatim>\<open>bIsReferenced\<close>, \<^verbatim>\<open>SafeDeleteSingleObject\<close> returns false with a null package: it logs the
  gathering call, the warning when the gathering succeeded, and its return, and it makes
  no call of \<^verbatim>\<open>DeleteSingleObject\<close>.
\<close>

theorem SafeDeleteSingleObject_refuses_referenced:
  assumes "Object_IsValid api s obj"
      and "GatherObjectReferencersForDeletion api s obj = ((g, True, u), s1)"
  shows "SafeDeleteSingleObject api (s, log) (Some obj) =
           (False, None, False,
            (s1, log @ [Call_GatherObjectReferencersForDeletion obj]
                     @ (if g then [Log_Warning obj] else [])
                     @ [Returned (Some obj) False None False]))
         \<and> deletions (snd (snd (snd (snd (SafeDeleteSingleObject api (s, log) (Some obj))))))
             = deletions log"
  using assms by (simp add: SafeDeleteSingleObject_def)

theorem SafeDeleteSingleObject_refuses_referenced_witness:
  "SafeDeleteSingleObject example_delete_api ({}, []) (Some 5) =
     (False, None, False,
      ({}, [Call_GatherObjectReferencersForDeletion 5, Log_Warning 5,
            Returned (Some 5) False None False]))
   \<and> deletions (snd (snd (snd (snd (SafeDeleteSingleObject example_delete_api ({}, []) (Some 5))))))
       = []"
proof -
  have v: "Object_IsValid example_delete_api {} 5" by (simp add: example_delete_api_def)
  have g: "GatherObjectReferencersForDeletion example_delete_api {} 5 = ((True, True, False), {})"
    by (simp add: example_delete_api_def)
  from SafeDeleteSingleObject_refuses_referenced [OF v g, of "[]"] show ?thesis by simp
qed


lemma batch_step_refl: "batch_step B [] B"
  by (simp add: batch_step_def option.map_ident)

lemma batch_step_trans:
  assumes "batch_step B n1 B1" and "batch_step B1 n2 B2"
  shows "batch_step B (n1 @ n2) B2"
proof -
  have o: "OutObjectsNotDeleted B2 =
         map_option (\<lambda>nd. nd @ map fst (filter (\<lambda>r. \<not> fst (snd r)) (returns (n1 @ n2))))
           (OutObjectsNotDeleted B)"
    using assms unfolding batch_step_def
    by (cases "OutObjectsNotDeleted B") simp_all
  show ?thesis
    unfolding batch_step_def
    apply (intro conjI)
    using assms apply (simp add: batch_step_def)
    using assms apply (simp add: batch_step_def)
    using assms apply (simp add: batch_step_def)
    using assms apply (simp add: batch_step_def)
    using o apply simp
    done
qed


lemma SafeDeleteSingleObject_shape:
  assumes "SafeDeleteSingleObject api (s, log) x = (d, p, m, (s', log'))"
  shows "\<exists>mid. log' = log @ mid @ [Returned x d p m] \<and> returns mid = [] \<and> collections mid = []
           \<and> (deletions mid = [] \<or> (\<exists>obj. x = Some obj \<and> deletions mid = [obj]))"
proof (cases x)
  case None
  with assms have "log' = log @ [] @ [Returned x d p m]"
    by (simp add: SafeDeleteSingleObject_def)
  then show ?thesis by (intro exI[of _ "[]"]) simp
next
  case (Some obj)
  show ?thesis
  proof (cases "Object_IsValid api s obj")
    case False
    with Some assms have "log' = log @ [] @ [Returned x d p m]"
      by (simp add: SafeDeleteSingleObject_def)
    then show ?thesis by (intro exI[of _ "[]"]) simp
  next
    case True
    obtain g r u s1 where G: "GatherObjectReferencersForDeletion api s obj = ((g, r, u), s1)"
      by (cases "GatherObjectReferencersForDeletion api s obj") auto
    show ?thesis
    proof (cases "\<not> g \<or> r")
      case True
      with Some \<open>Object_IsValid api s obj\<close> G assms
      have "log' = log @ ([Call_GatherObjectReferencersForDeletion obj]
                         @ (if g then [Log_Warning obj] else [])) @ [Returned x d p m]"
        by (auto simp add: SafeDeleteSingleObject_def)
      then show ?thesis
        by (intro exI[of _ "[Call_GatherObjectReferencersForDeletion obj]
                         @ (if g then [Log_Warning obj] else [])"]) simp
    next
      case False
      obtain dl s2 where D: "DeleteSingleObject api s1 obj True = (dl, s2)"
        by (cases "DeleteSingleObject api s1 obj True") auto
      from False Some \<open>Object_IsValid api s obj\<close> G D assms
      have "log' = log @ [Call_GatherObjectReferencersForDeletion obj,
                          Call_DeleteSingleObject obj True] @ [Returned x d p m]"
        by (cases dl) (auto simp add: SafeDeleteSingleObject_def Let_def)
      then show ?thesis using Some
        by (intro exI[of _ "[Call_GatherObjectReferencersForDeletion obj,
                          Call_DeleteSingleObject obj True]"]) simp
    qed
  qed
qed

lemma SafeDeleteObjects_body_step:
  "\<exists>new. batch_step B new (SafeDeleteObjects_body api x B) \<and> collections new = []
     \<and> set (ProcessedObjects (SafeDeleteObjects_body api x B)) = insert x (set (ProcessedObjects B))
     \<and> ((returns new = [] \<and> deletions new = []
          \<and> (x \<in> set (ProcessedObjects B) \<or> \<not> IsValid api (fst (Editor B)) x))
         \<or> (x \<notin> set (ProcessedObjects B) \<and> IsValid api (fst (Editor B)) x
            \<and> (\<exists>d p m. returns new = [(x, d, p, m)])
            \<and> (deletions new = [] \<or> (\<exists>obj. x = Some obj \<and> deletions new = [obj]))))"
proof (cases "x \<in> set (ProcessedObjects B)")
  case True
  then have "SafeDeleteObjects_body api x B = B" by (simp add: SafeDeleteObjects_body_def)
  with True show ?thesis by (intro exI[of _ "[]"]) (simp add: batch_step_refl insert_absorb)
next
  case np: False
  show ?thesis
  proof (cases "IsValid api (fst (Editor B)) x")
    case False
    with np have e: "SafeDeleteObjects_body api x B
                  = B\<lparr>ProcessedObjects := TSet_Add x (ProcessedObjects B)\<rparr>"
      by (simp add: SafeDeleteObjects_body_def Let_def)
    have "batch_step B [] (B\<lparr>ProcessedObjects := TSet_Add x (ProcessedObjects B)\<rparr>)"
      by (simp add: batch_step_def option.map_ident)
    have "batch_step B [] (SafeDeleteObjects_body api x B)"
      unfolding e by (simp add: batch_step_def option.map_ident)
    moreover have "set (ProcessedObjects (SafeDeleteObjects_body api x B))
                = insert x (set (ProcessedObjects B))"
      unfolding e using np by (simp add: TSet_Add_def)
    ultimately show ?thesis using False by (intro exI[of _ "[]"]) simp
  next
    case True
    obtain s log where ed: "Editor B = (s, log)" by (cases "Editor B")
    obtain d p m s' log' where r: "SafeDeleteSingleObject api (s, log) x = (d, p, m, (s', log'))"
      by (metis prod.exhaust)
    from SafeDeleteSingleObject_shape[OF r] obtain mid where
      mid: "log' = log @ mid @ [Returned x d p m]" "returns mid = []" "collections mid = []"
           "deletions mid = [] \<or> (\<exists>obj. x = Some obj \<and> deletions mid = [obj])"
      by blast
    let ?new = "mid @ [Returned x d p m]"
    have body: "SafeDeleteObjects_body api x B =
        (let B1 = B\<lparr>ProcessedObjects := TSet_Add x (ProcessedObjects B)\<rparr> in
         if d then
           (if m then B1\<lparr>NumDeleted := NumDeleted B1 + 1, bGarbageCollectionRequired := True,
                         Editor := (s', log')\<rparr>
            else B1\<lparr>NumDeleted := NumDeleted B1 + 1,
                    PackagesToCleanUp := TSet_Add p (PackagesToCleanUp B1),
                    Editor := (s', log')\<rparr>)
         else (case OutObjectsNotDeleted B1 of
                 Some nd \<Rightarrow> B1\<lparr>OutObjectsNotDeleted := Some (nd @ [x]), Editor := (s', log')\<rparr>
               | None \<Rightarrow> B1\<lparr>Editor := (s', log')\<rparr>))"
      using np True ed r by (simp add: SafeDeleteObjects_body_def Let_def)
    have bs: "batch_step B ?new (SafeDeleteObjects_body api x B)"
    proof (cases d)
      case dT: True
      show ?thesis
        by (cases m) (simp_all add: body dT Let_def batch_step_def ed mid(1,2) option.map_ident)
    next
      case dF: False
      show ?thesis
        by (cases "OutObjectsNotDeleted B")
           (simp_all add: body dF Let_def batch_step_def ed mid(1,2))
    qed
    have pr: "set (ProcessedObjects (SafeDeleteObjects_body api x B))
                = insert x (set (ProcessedObjects B))"
      using np
      by (cases d; cases m; cases "OutObjectsNotDeleted B")
         (simp_all add: body Let_def TSet_Add_def)
    show ?thesis
    proof (intro exI[of _ ?new] conjI)
      show "batch_step B ?new (SafeDeleteObjects_body api x B)" by (rule bs)
      show "collections ?new = []" by (simp add: mid(3))
      show "set (ProcessedObjects (SafeDeleteObjects_body api x B))
              = insert x (set (ProcessedObjects B))" by (rule pr)
      have "x \<notin> set (ProcessedObjects B) \<and> IsValid api (fst (Editor B)) x
            \<and> (\<exists>d p m. returns ?new = [(x, d, p, m)])
            \<and> (deletions ?new = [] \<or> (\<exists>obj. x = Some obj \<and> deletions ?new = [obj]))"
        using np True mid(2) mid(4) by simp
      then show "(returns ?new = [] \<and> deletions ?new = []
          \<and> (x \<in> set (ProcessedObjects B) \<or> \<not> IsValid api (fst (Editor B)) x))
         \<or> (x \<notin> set (ProcessedObjects B) \<and> IsValid api (fst (Editor B)) x
            \<and> (\<exists>d p m. returns ?new = [(x, d, p, m)])
            \<and> (deletions ?new = [] \<or> (\<exists>obj. x = Some obj \<and> deletions ?new = [obj])))"
        by (rule disjI2)
    qed
  qed
qed


declare SafeDeleteObjects_loop.simps [simp del]

lemma SafeDeleteObjects_loop_Nil: "SafeDeleteObjects_loop api [] B = ([], B)"
  by (simp add: SafeDeleteObjects_loop.simps)

lemma SafeDeleteObjects_loop_snoc:
  "SafeDeleteObjects_loop api (xs @ [x]) B
     = SafeDeleteObjects_loop api xs (SafeDeleteObjects_body api x B)"
  by (subst SafeDeleteObjects_loop.simps) simp

lemma SafeDeleteObjects_loop_steps:
  "\<exists>new B'. SafeDeleteObjects_loop api xs B = ([], B') \<and> batch_step B new B'
     \<and> collections new = []
     \<and> set (ProcessedObjects B') = set (ProcessedObjects B) \<union> set xs
     \<and> distinct (map fst (returns new))
     \<and> fst ` set (returns new) \<subseteq> set xs - set (ProcessedObjects B)
     \<and> fst ` set (returns new) \<subseteq> {x. \<exists>s. IsValid api s x}
     \<and> set xs - set (ProcessedObjects B) \<subseteq> fst ` set (returns new) \<union> {x. \<exists>s. \<not> IsValid api s x}
     \<and> distinct (deletions new)
     \<and> Some ` set (deletions new) \<subseteq> fst ` set (returns new)"
proof (induction xs arbitrary: B rule: rev_induct)
  case Nil
  show ?case
    by (rule exI[of _ "[]"], rule exI[of _ B]) (simp add: SafeDeleteObjects_loop_Nil batch_step_refl)
next
  case (snoc x xs)
  let ?B1 = "SafeDeleteObjects_body api x B"
  let ?P = "set (ProcessedObjects B)"
  from SafeDeleteObjects_body_step[of B api x] obtain n1 where
    n1: "batch_step B n1 ?B1" "collections n1 = []"
        "set (ProcessedObjects ?B1) = insert x ?P"
    and n1d: "(returns n1 = [] \<and> deletions n1 = []
          \<and> (x \<in> ?P \<or> \<not> IsValid api (fst (Editor B)) x))
         \<or> (x \<notin> ?P \<and> IsValid api (fst (Editor B)) x
            \<and> (\<exists>d p m. returns n1 = [(x, d, p, m)])
            \<and> (deletions n1 = [] \<or> (\<exists>obj. x = Some obj \<and> deletions n1 = [obj])))"
    by (elim exE conjE) (rule that)
  from snoc.IH[of ?B1] obtain n2 B' where
    n2: "SafeDeleteObjects_loop api xs ?B1 = ([], B')" "batch_step ?B1 n2 B'"
        "collections n2 = []"
        "set (ProcessedObjects B') = set (ProcessedObjects ?B1) \<union> set xs"
        "distinct (map fst (returns n2))"
        "fst ` set (returns n2) \<subseteq> set xs - set (ProcessedObjects ?B1)"
        "fst ` set (returns n2) \<subseteq> {x. \<exists>s. IsValid api s x}"
        "set xs - set (ProcessedObjects ?B1) \<subseteq> fst ` set (returns n2) \<union> {x. \<exists>s. \<not> IsValid api s x}"
        "distinct (deletions n2)"
        "Some ` set (deletions n2) \<subseteq> fst ` set (returns n2)"
    by (elim exE conjE) (rule that)
  let ?R2 = "fst ` set (returns n2)"
  have a: "SafeDeleteObjects_loop api (xs @ [x]) B = ([], B')" by (simp add: SafeDeleteObjects_loop_snoc n2(1))
  have b: "batch_step B (n1 @ n2) B'" by (rule batch_step_trans[OF n1(1) n2(2)])
  have c: "collections (n1 @ n2) = []" by (simp add: n1(2) n2(3))
  have d: "set (ProcessedObjects B') = ?P \<union> set (xs @ [x])"
    unfolding n2(4) n1(3) by auto
  have r2: "?R2 \<subseteq> set xs - insert x ?P" using n2(6) unfolding n1(3) .
  have v2: "set xs - insert x ?P \<subseteq> ?R2 \<union> {x. \<exists>s. \<not> IsValid api s x}"
    using n2(8) unfolding n1(3) .
  have xn2: "x \<notin> ?R2" using r2 by blast
  have rest:
     "distinct (map fst (returns (n1 @ n2)))
     \<and> fst ` set (returns (n1 @ n2)) \<subseteq> set (xs @ [x]) - ?P
     \<and> fst ` set (returns (n1 @ n2)) \<subseteq> {x. \<exists>s. IsValid api s x}
     \<and> set (xs @ [x]) - ?P \<subseteq> fst ` set (returns (n1 @ n2)) \<union> {x. \<exists>s. \<not> IsValid api s x}
     \<and> distinct (deletions (n1 @ n2))
     \<and> Some ` set (deletions (n1 @ n2)) \<subseteq> fst ` set (returns (n1 @ n2))"
  proof (rule disjE[OF n1d])
    assume h: "returns n1 = [] \<and> deletions n1 = []
          \<and> (x \<in> ?P \<or> \<not> IsValid api (fst (Editor B)) x)"
    then have e: "returns n1 = []" "deletions n1 = []"
       and s: "x \<in> ?P \<or> \<not> IsValid api (fst (Editor B)) x" by simp_all
    have 1: "fst ` set (returns (n1 @ n2)) = ?R2" by (simp add: e)
    have 2: "deletions (n1 @ n2) = deletions n2" by (simp add: e)
    have 3: "distinct (map fst (returns (n1 @ n2)))" by (simp add: e n2(5))
    have 4: "?R2 \<subseteq> set (xs @ [x]) - ?P" using r2 by auto
    have 5: "set (xs @ [x]) - ?P \<subseteq> ?R2 \<union> {x. \<exists>s. \<not> IsValid api s x}"
      using v2 s by auto
    show ?thesis unfolding 1 2 using 3 4 5 n2(7) n2(9) n2(10) by (intro conjI)
  next
    assume h: "x \<notin> ?P \<and> IsValid api (fst (Editor B)) x
            \<and> (\<exists>d p m. returns n1 = [(x, d, p, m)])
            \<and> (deletions n1 = [] \<or> (\<exists>obj. x = Some obj \<and> deletions n1 = [obj]))"
    then have np: "x \<notin> ?P" and v: "IsValid api (fst (Editor B)) x"
       and dl: "deletions n1 = [] \<or> (\<exists>obj. x = Some obj \<and> deletions n1 = [obj])"
      by simp_all
    from h obtain d0 p0 m0 where r: "returns n1 = [(x, d0, p0, m0)]" by blast
    have 1: "fst ` set (returns (n1 @ n2)) = insert x ?R2" by (simp add: r)
    have 3: "distinct (map fst (returns (n1 @ n2)))" using xn2 n2(5) by (simp add: r)
    have 4: "insert x ?R2 \<subseteq> set (xs @ [x]) - ?P" using r2 np by auto
    have 5: "set (xs @ [x]) - ?P \<subseteq> insert x ?R2 \<union> {x. \<exists>s. \<not> IsValid api s x}"
      using v2 by auto
    have 6: "insert x ?R2 \<subseteq> {x. \<exists>s. IsValid api s x}" using n2(7) v by auto
    have xd: "\<And>obj. x = Some obj \<Longrightarrow> obj \<notin> set (deletions n2)"
      using n2(10) xn2 by auto
    have 7: "distinct (deletions (n1 @ n2))" using dl n2(9) xd by auto
    have 8: "Some ` set (deletions (n1 @ n2)) \<subseteq> insert x ?R2" using dl n2(10) by auto
    show ?thesis unfolding 1 using 3 4 5 6 7 8 by (intro conjI)
  qed
  show ?case
    apply (rule exI[of _ "n1 @ n2"], rule exI[of _ B'])
    using a b c d rest by (intro conjI) (elim conjE, assumption)+
qed


lemma SafeDeleteObjects_summary:
  "\<exists>new fin s'.
     SafeDeleteObjects api (s, log) xs out =
       (int (length (filter (\<lambda>r. fst (snd r)) (returns new))), [],
        map_option (\<lambda>nd. nd @ map fst (filter (\<lambda>r. \<not> fst (snd r)) (returns new))) out,
        (s', log @ new @ fin))
     \<and> fin = (let pkgs = fold TSet_Add
                           (map (\<lambda>r. fst (snd (snd r)))
                              (filter (\<lambda>r. fst (snd r) \<and> \<not> snd (snd (snd r))) (returns new))) []
              in if pkgs \<noteq> [] then [Call_CleanupAfterSuccessfulDelete pkgs]
                 else if filter (\<lambda>r. fst (snd r) \<and> snd (snd (snd r))) (returns new) \<noteq> []
                 then [Call_CollectGarbage] else [])
     \<and> collections new = []
     \<and> distinct (map fst (returns new))
     \<and> fst ` set (returns new) \<subseteq> set xs
     \<and> fst ` set (returns new) \<subseteq> {x. \<exists>s. IsValid api s x}
     \<and> set xs \<subseteq> fst ` set (returns new) \<union> {x. \<exists>s. \<not> IsValid api s x}
     \<and> distinct (deletions new)
     \<and> Some ` set (deletions new) \<subseteq> fst ` set (returns new)"
proof -
  let ?B0 = "\<lparr>NumDeleted = 0, bGarbageCollectionRequired = False, PackagesToCleanUp = [],
              ProcessedObjects = [], OutObjectsNotDeleted = out, Editor = (s, log)\<rparr>"
  from SafeDeleteObjects_loop_steps[of api xs ?B0] obtain new B' where
    l: "SafeDeleteObjects_loop api xs ?B0 = ([], B')" and bs: "batch_step ?B0 new B'"
    and c: "collections new = []"
    and r: "distinct (map fst (returns new))"
           "fst ` set (returns new) \<subseteq> set xs - set (ProcessedObjects ?B0)"
           "fst ` set (returns new) \<subseteq> {x. \<exists>s. IsValid api s x}"
           "set xs - set (ProcessedObjects ?B0) \<subseteq> fst ` set (returns new) \<union> {x. \<exists>s. \<not> IsValid api s x}"
           "distinct (deletions new)"
           "Some ` set (deletions new) \<subseteq> fst ` set (returns new)"
    by (elim exE conjE) (rule that)
  let ?pk = "fold TSet_Add (map (\<lambda>r. fst (snd (snd r)))
                 (filter (\<lambda>r. fst (snd r) \<and> \<not> snd (snd (snd r))) (returns new))) []"
  let ?mem = "filter (\<lambda>r. fst (snd r) \<and> snd (snd (snd r))) (returns new) \<noteq> []"
  from bs have f: "snd (Editor B') = log @ new"
      "NumDeleted B' = int (length (filter (\<lambda>r. fst (snd r)) (returns new)))"
      "bGarbageCollectionRequired B' = ?mem"
      "PackagesToCleanUp B' = ?pk"
      "OutObjectsNotDeleted B' =
         map_option (\<lambda>nd. nd @ map fst (filter (\<lambda>r. \<not> fst (snd r)) (returns new))) out"
    by (simp_all add: batch_step_def)
  let ?fin = "if ?pk \<noteq> [] then [Call_CleanupAfterSuccessfulDelete ?pk]
              else if ?mem then [Call_CollectGarbage] else []"
  obtain sB where e: "Editor B' = (sB, log @ new)" using f(1) by (cases "Editor B'") simp
  have "\<exists>s'. SafeDeleteObjects api (s, log) xs out =
       (int (length (filter (\<lambda>r. fst (snd r)) (returns new))), [],
        map_option (\<lambda>nd. nd @ map fst (filter (\<lambda>r. \<not> fst (snd r)) (returns new))) out,
        (s', log @ new @ ?fin))"
    by (simp add: SafeDeleteObjects_def l f(2,3,4,5) e Let_def)
  then obtain s' where m: "SafeDeleteObjects api (s, log) xs out =
       (int (length (filter (\<lambda>r. fst (snd r)) (returns new))), [],
        map_option (\<lambda>nd. nd @ map fst (filter (\<lambda>r. \<not> fst (snd r)) (returns new))) out,
        (s', log @ new @ ?fin))" ..
  have r2: "fst ` set (returns new) \<subseteq> set xs" using r(2) by simp
  have r4: "set xs \<subseteq> fst ` set (returns new) \<union> {x. \<exists>s. \<not> IsValid api s x}" using r(4) by simp
  show ?thesis
    apply (rule exI[of _ new], rule exI[of _ ?fin], rule exI[of _ s'])
    apply (intro conjI)
    apply (rule m)
    apply (simp add: Let_def)
    apply (rule c)
    apply (rule r(1))
    apply (rule r2)
    apply (rule r(3))
    apply (rule r4)
    apply (rule r(5))
    apply (rule r(6))
    done
qed


lemma returns_iff: "(x, d, p, m) \<in> set (returns l) \<longleftrightarrow> Returned x d p m \<in> set l"
  by (induction l) (auto split: event.splits)

lemma set_fold_TSet_Add: "set (fold TSet_Add ys acc) = set acc \<union> set ys"
  by (induction ys arbitrary: acc) (auto simp: TSet_Add_def)

lemma distinct_fold_TSet_Add: "distinct acc \<Longrightarrow> distinct (fold TSet_Add ys acc)"
  by (induction ys arbitrary: acc) (auto simp: TSet_Add_def)

lemma in_memory_iff:
  "(filter (\<lambda>r. fst (snd r) \<and> snd (snd (snd r))) (returns l) \<noteq> [])
     = (\<exists>x p. Returned x True p True \<in> set l)"
  by (induction l) (auto split: event.splits)

lemma example_delete_run:
  "SafeDeleteObjects example_delete_api ({}, []) [Some 1, Some 2] None =
     (2, [], None,
      ({1, 2},
       [Call_GatherObjectReferencersForDeletion 2, Call_DeleteSingleObject 2 True,
        Returned (Some 2) True (Some 102) False,
        Call_GatherObjectReferencersForDeletion 1, Call_DeleteSingleObject 1 True,
        Returned (Some 1) True (Some 101) True,
        Call_CleanupAfterSuccessfulDelete [Some 102]]))"
  by (simp add: SafeDeleteObjects_def SafeDeleteObjects_loop.simps SafeDeleteObjects_body_def
        SafeDeleteSingleObject_def IsValid_def TSet_Add_def example_delete_api_def Let_def)

text \<open>
  Claim C2. The log of \<^verbatim>\<open>SafeDeleteObjects\<close> is the old log, then the events of the loop, then
  at most one final event. The loop empties the input array and logs no garbage collection
  and no package cleanup. The final event is one \<^verbatim>\<open>CleanupAfterSuccessfulDelete\<close> on the
  packages of the objects deleted with an on-disk package when there is such a package;
  otherwise one \<^verbatim>\<open>CollectGarbage\<close> when some object was deleted with an in-memory-only package;
  otherwise nothing.
\<close>

theorem SafeDeleteObjects_collects_once_at_end:
  "\<exists>body fin pkgs s'.
     SafeDeleteObjects api (s, log) xs out
       = (fst (SafeDeleteObjects api (s, log) xs out), [],
          fst (snd (snd (SafeDeleteObjects api (s, log) xs out))), (s', log @ body @ fin))
     \<and> collections body = []
     \<and> returns fin = [] \<and> deletions fin = []
     \<and> distinct pkgs \<and> set pkgs = {p. \<exists>x. Returned x True p False \<in> set body}
     \<and> fin = (if pkgs \<noteq> [] then [Call_CleanupAfterSuccessfulDelete pkgs]
              else if (\<exists>x p. Returned x True p True \<in> set body) then [Call_CollectGarbage]
              else [])"
proof -
  from SafeDeleteObjects_summary[of api s log xs out] obtain new fin s' where
    m: "SafeDeleteObjects api (s, log) xs out =
       (int (length (filter (\<lambda>r. fst (snd r)) (returns new))), [],
        map_option (\<lambda>nd. nd @ map fst (filter (\<lambda>r. \<not> fst (snd r)) (returns new))) out,
        (s', log @ new @ fin))"
    and f: "fin = (let pkgs = fold TSet_Add
                           (map (\<lambda>r. fst (snd (snd r)))
                              (filter (\<lambda>r. fst (snd r) \<and> \<not> snd (snd (snd r))) (returns new))) []
              in if pkgs \<noteq> [] then [Call_CleanupAfterSuccessfulDelete pkgs]
                 else if filter (\<lambda>r. fst (snd r) \<and> snd (snd (snd r))) (returns new) \<noteq> []
                 then [Call_CollectGarbage] else [])"
    and c: "collections new = []"
    by (elim exE conjE) (rule that)
  let ?pk = "fold TSet_Add (map (\<lambda>r. fst (snd (snd r)))
                 (filter (\<lambda>r. fst (snd r) \<and> \<not> snd (snd (snd r))) (returns new))) []"
  have d: "distinct ?pk" by (rule distinct_fold_TSet_Add) simp
  have sp: "set ?pk = {p. \<exists>x. Returned x True p False \<in> set new}"
  proof -
    have "set ?pk = (\<lambda>r. fst (snd (snd r))) `
                      {r \<in> set (returns new). fst (snd r) \<and> \<not> snd (snd (snd r))}"
      by (simp add: set_fold_TSet_Add)
    also have "\<dots> = {p. \<exists>x. (x, True, p, False) \<in> set (returns new)}"
      by (auto simp: image_iff) force
    finally show ?thesis by (simp add: returns_iff)
  qed
  have mem: "(filter (\<lambda>r. fst (snd r) \<and> snd (snd (snd r))) (returns new) \<noteq> [])
             = (\<exists>x p. Returned x True p True \<in> set new)"
    by (rule in_memory_iff)
  have f': "fin = (if ?pk \<noteq> [] then [Call_CleanupAfterSuccessfulDelete ?pk]
              else if (\<exists>x p. Returned x True p True \<in> set new) then [Call_CollectGarbage]
              else [])"
    using f mem by (simp add: Let_def)
  have rf: "returns fin = []" "deletions fin = []" by (simp_all add: f')
  show ?thesis
    apply (rule exI[of _ new], rule exI[of _ fin], rule exI[of _ ?pk], rule exI[of _ s'])
    apply (intro conjI)
    apply (simp add: m)
    apply (rule c)
    apply (rule rf(1))
    apply (rule rf(2))
    apply (rule d)
    apply (rule sp)
    apply (rule f')
    done
qed

theorem SafeDeleteObjects_collects_once_at_end_witness:
  "SafeDeleteObjects example_delete_api ({}, []) [Some 1, Some 2] None =
     (2, [], None,
      ({1, 2},
       [Call_GatherObjectReferencersForDeletion 2, Call_DeleteSingleObject 2 True,
        Returned (Some 2) True (Some 102) False,
        Call_GatherObjectReferencersForDeletion 1, Call_DeleteSingleObject 1 True,
        Returned (Some 1) True (Some 101) True,
        Call_CleanupAfterSuccessfulDelete [Some 102]]))
   \<and> (\<exists>body fin pkgs.
        [Call_GatherObjectReferencersForDeletion 2, Call_DeleteSingleObject 2 True,
         Returned (Some 2) True (Some 102) False,
         Call_GatherObjectReferencersForDeletion 1, Call_DeleteSingleObject 1 True,
         Returned (Some 1) True (Some 101) True,
         Call_CleanupAfterSuccessfulDelete [Some 102] :: (nat, nat) event] = body @ fin
        \<and> collections body = [] \<and> returns fin = [] \<and> deletions fin = []
        \<and> distinct pkgs \<and> set pkgs = {p. \<exists>x. Returned x True p False \<in> set body}
        \<and> fin = (if pkgs \<noteq> [] then [Call_CleanupAfterSuccessfulDelete pkgs]
                 else if (\<exists>x p. Returned x True p True \<in> set body) then [Call_CollectGarbage]
                 else []))"
proof -
  note e = example_delete_run
  from SafeDeleteObjects_collects_once_at_end
         [of example_delete_api "{}" "[]" "[Some 1, Some 2]" None]
  obtain body fin pkgs s' where
    h: "SafeDeleteObjects example_delete_api ({}, []) [Some 1, Some 2] None
       = (fst (SafeDeleteObjects example_delete_api ({}, []) [Some 1, Some 2] None), [],
          fst (snd (snd (SafeDeleteObjects example_delete_api ({}, []) [Some 1, Some 2] None))),
          (s', [] @ body @ fin))"
    and r: "collections body = []" "returns fin = []" "deletions fin = []"
       "distinct pkgs" "set pkgs = {p. \<exists>x. Returned x True p False \<in> set body}"
       "fin = (if pkgs \<noteq> [] then [Call_CleanupAfterSuccessfulDelete pkgs]
                 else if (\<exists>x p. Returned x True p True \<in> set body) then [Call_CollectGarbage]
                 else [])"
    by (elim exE conjE) (rule that)
  from h have l: "[Call_GatherObjectReferencersForDeletion 2, Call_DeleteSingleObject 2 True,
         Returned (Some 2) True (Some 102) False,
         Call_GatherObjectReferencersForDeletion 1, Call_DeleteSingleObject 1 True,
         Returned (Some 1) True (Some 101) True,
         Call_CleanupAfterSuccessfulDelete [Some 102] :: (nat, nat) event] = body @ fin"
    unfolding e by simp
  show ?thesis
    apply (rule conjI)
    apply (rule e)
    apply (rule exI[of _ body], rule exI[of _ fin], rule exI[of _ pkgs])
    apply (intro conjI)
    apply (rule l)
    apply (rule r(1))
    apply (rule r(2))
    apply (rule r(3))
    apply (rule r(4))
    apply (rule r(5))
    apply (rule r(6))
    done
qed


text \<open>
  Claim C9. Whatever the input array, \<^verbatim>\<open>SafeDeleteObjects\<close> leaves it empty; among the events
  it logs, \<^verbatim>\<open>DeleteSingleObject\<close> is called at most once per object and only on objects of the
  array, \<^verbatim>\<open>SafeDeleteSingleObject\<close> returns at most once per object, the returned count is the
  number of those returns that report a deletion, and it is at most the number of distinct
  elements of the array.
\<close>

theorem SafeDeleteObjects_once_per_object:
  "\<exists>new s'.
     SafeDeleteObjects api (s, log) xs out
       = (int (length (filter (\<lambda>r. fst (snd r)) (returns new))), [],
          fst (snd (snd (SafeDeleteObjects api (s, log) xs out))), (s', log @ new))
     \<and> distinct (deletions new) \<and> Some ` set (deletions new) \<subseteq> set xs
     \<and> distinct (map fst (returns new)) \<and> fst ` set (returns new) \<subseteq> set xs
     \<and> 0 \<le> fst (SafeDeleteObjects api (s, log) xs out)
     \<and> fst (SafeDeleteObjects api (s, log) xs out) \<le> int (card (set xs))"
proof -
  from SafeDeleteObjects_summary[of api s log xs out] obtain new fin s' where
    m: "SafeDeleteObjects api (s, log) xs out =
       (int (length (filter (\<lambda>r. fst (snd r)) (returns new))), [],
        map_option (\<lambda>nd. nd @ map fst (filter (\<lambda>r. \<not> fst (snd r)) (returns new))) out,
        (s', log @ new @ fin))"
    and f: "fin = (let pkgs = fold TSet_Add
                           (map (\<lambda>r. fst (snd (snd r)))
                              (filter (\<lambda>r. fst (snd r) \<and> \<not> snd (snd (snd r))) (returns new))) []
              in if pkgs \<noteq> [] then [Call_CleanupAfterSuccessfulDelete pkgs]
                 else if filter (\<lambda>r. fst (snd r) \<and> snd (snd (snd r))) (returns new) \<noteq> []
                 then [Call_CollectGarbage] else [])"
    and r: "distinct (map fst (returns new))" "fst ` set (returns new) \<subseteq> set xs"
           "distinct (deletions new)" "Some ` set (deletions new) \<subseteq> fst ` set (returns new)"
    by (elim exE conjE) (rule that)
  have rf: "returns fin = []" "deletions fin = []" by (simp_all add: f Let_def)
  let ?n = "new @ fin"
  have 1: "returns ?n = returns new" "deletions ?n = deletions new" by (simp_all add: rf)
  have "length (filter (\<lambda>r. fst (snd r)) (returns new)) \<le> length (map fst (returns new))"
    by simp
  also have "\<dots> = card (set (map fst (returns new)))"
    using r(1) by (simp only: distinct_card)
  also have "\<dots> \<le> card (set xs)"
    using r(2) by (intro card_mono) simp_all
  finally have le: "length (filter (\<lambda>r. fst (snd r)) (returns new)) \<le> card (set xs)" .
  show ?thesis
    apply (rule exI[of _ ?n], rule exI[of _ s'])
    unfolding 1
    apply (intro conjI)
    apply (simp add: m)
    apply (rule r(3))
    using r(4) r(2) apply blast
    apply (rule r(1))
    apply (rule r(2))
    apply (simp add: m)
    using le apply (simp add: m)
    done
qed

theorem SafeDeleteObjects_once_per_object_witness:
  "SafeDeleteObjects example_delete_api ({}, []) [Some 1, Some 1, Some 1] None =
     (1, [], None,
      ({1},
       [Call_GatherObjectReferencersForDeletion 1, Call_DeleteSingleObject 1 True,
        Returned (Some 1) True (Some 101) True, Call_CollectGarbage]))
   \<and> fst (SafeDeleteObjects example_delete_api ({}, []) [Some 1, Some 1, Some 1] None) \<le> 1"
proof -
  have e: "SafeDeleteObjects example_delete_api ({}, []) [Some 1, Some 1, Some 1] None =
     (1, [], None,
      ({1},
       [Call_GatherObjectReferencersForDeletion 1, Call_DeleteSingleObject 1 True,
        Returned (Some 1) True (Some 101) True, Call_CollectGarbage]))"
    by (simp add: SafeDeleteObjects_def SafeDeleteObjects_loop.simps SafeDeleteObjects_body_def
        SafeDeleteSingleObject_def IsValid_def TSet_Add_def example_delete_api_def Let_def)
  from SafeDeleteObjects_once_per_object
         [of example_delete_api "{}" "[]" "[Some 1, Some 1, Some 1]" None]
  have "fst (SafeDeleteObjects example_delete_api ({}, []) [Some 1, Some 1, Some 1] None)
          \<le> int (card (set [Some (1::nat), Some 1, Some 1]))"
    by (elim exE conjE)
  then have "fst (SafeDeleteObjects example_delete_api ({}, []) [Some 1, Some 1, Some 1] None) \<le> 1"
    by simp
  with e show ?thesis by (intro conjI)
qed

text \<open>
  One pass of the loop on an object not seen before: an object that fails \<^verbatim>\<open>IsValid\<close> is only
  remembered as processed; a valid object that \<^verbatim>\<open>SafeDeleteSingleObject\<close> does not delete is
  appended to the not-deleted array when there is one.
\<close>

lemma SafeDeleteObjects_body_invalid:
  assumes "x \<notin> set (ProcessedObjects B)" and "\<not> IsValid api (fst (Editor B)) x"
  shows "SafeDeleteObjects_body api x B = B\<lparr>ProcessedObjects := ProcessedObjects B @ [x]\<rparr>"
  using assms by (simp add: SafeDeleteObjects_body_def TSet_Add_def Let_def)

lemma SafeDeleteObjects_body_failed:
  assumes "x \<notin> set (ProcessedObjects B)" and "IsValid api (fst (Editor B)) x"
      and "SafeDeleteSingleObject api (Editor B) x = (False, p, m, ed)"
      and "OutObjectsNotDeleted B = Some nd"
  shows "OutObjectsNotDeleted (SafeDeleteObjects_body api x B) = Some (nd @ [x])"
  using assms by (simp add: SafeDeleteObjects_body_def TSet_Add_def Let_def)

lemma SafeDeleteObjects_body_editor:
  assumes "x \<notin> set (ProcessedObjects B)"
  shows "Editor (SafeDeleteObjects_body api x B) =
           (if IsValid api (fst (Editor B)) x
            then snd (snd (snd (SafeDeleteSingleObject api (Editor B) x)))
            else Editor B)"
proof (cases "IsValid api (fst (Editor B)) x")
  case False
  with assms show ?thesis by (simp add: SafeDeleteObjects_body_def Let_def)
next
  case True
  obtain d p m ed where r: "SafeDeleteSingleObject api (Editor B) x = (d, p, m, ed)"
    by (cases "SafeDeleteSingleObject api (Editor B) x") auto
  show ?thesis
    using assms True r
    by (cases d; cases m; cases "OutObjectsNotDeleted B")
       (simp_all add: SafeDeleteObjects_body_def Let_def)
qed

lemma SafeDeleteObjects_body_returns:
  assumes np: "x \<notin> set (ProcessedObjects B)"
      and bs: "batch_step B n1 (SafeDeleteObjects_body api x B)"
  shows "returns n1 =
           (if IsValid api (fst (Editor B)) x
            then (case SafeDeleteSingleObject api (Editor B) x of (d, p, m, ed) \<Rightarrow> [(x, d, p, m)])
            else [])"
proof -
  from bs have l: "snd (Editor (SafeDeleteObjects_body api x B)) = snd (Editor B) @ n1"
    by (simp add: batch_step_def)
  show ?thesis
  proof (cases "IsValid api (fst (Editor B)) x")
    case False
    with SafeDeleteObjects_body_editor[OF np, of api] l have "n1 = []" by simp
    with False show ?thesis by simp
  next
    case True
    obtain s log where ed: "Editor B = (s, log)" by (cases "Editor B")
    obtain d p m s' log' where
      r: "SafeDeleteSingleObject api (s, log) x = (d, p, m, (s', log'))"
      by (metis prod.exhaust)
    from SafeDeleteSingleObject_shape[OF r] obtain mid where
      mid: "log' = log @ mid @ [Returned x d p m]" "returns mid = []"
      by blast
    from SafeDeleteObjects_body_editor[OF np, of api] True ed r
    have "Editor (SafeDeleteObjects_body api x B) = (s', log')" by simp
    with l ed mid(1) have "n1 = mid @ [Returned x d p m]" by simp
    then have "returns n1 = [(x, d, p, m)]" by (simp add: mid(2))
    with True ed r show ?thesis by simp
  qed
qed

lemma SafeDeleteObjects_loop_append:
  "SafeDeleteObjects_loop api (xs @ ys) B
     = SafeDeleteObjects_loop api xs (snd (SafeDeleteObjects_loop api ys B))"
proof (induction ys arbitrary: B rule: rev_induct)
  case Nil
  show ?case by (simp add: SafeDeleteObjects_loop_Nil)
next
  case (snoc y ys)
  have "SafeDeleteObjects_loop api (xs @ ys @ [y]) B
          = SafeDeleteObjects_loop api (xs @ ys) (SafeDeleteObjects_body api y B)"
    using SafeDeleteObjects_loop_snoc[of api "xs @ ys" y B] by simp
  also have "\<dots> = SafeDeleteObjects_loop api xs
                     (snd (SafeDeleteObjects_loop api ys (SafeDeleteObjects_body api y B)))"
    by (rule snoc.IH)
  finally show ?case by (simp add: SafeDeleteObjects_loop_snoc)
qed


lemma SafeDeleteObjects_loop_at_pop:
  assumes na: "x \<notin> set after" and np: "x \<notin> set (ProcessedObjects B)"
  shows "\<exists>new B'. SafeDeleteObjects_loop api (before @ x # after) B = ([], B')
           \<and> batch_step B new B'
           \<and> filter (\<lambda>r. fst r = x) (returns new) =
               (if IsValid api (fst (Editor (snd (SafeDeleteObjects_loop api after B)))) x
                then (case SafeDeleteSingleObject api
                             (Editor (snd (SafeDeleteObjects_loop api after B))) x of
                        (d, p, m, ed) \<Rightarrow> [(x, d, p, m)])
                else [])"
proof -
  from SafeDeleteObjects_loop_steps[of api after B] obtain n0 Bx where
    la: "SafeDeleteObjects_loop api after B = ([], Bx)" and bsa: "batch_step B n0 Bx"
    and "collections n0 = []"
    and pa: "set (ProcessedObjects Bx) = set (ProcessedObjects B) \<union> set after"
    and "distinct (map fst (returns n0))"
    and ra: "fst ` set (returns n0) \<subseteq> set after - set (ProcessedObjects B)"
    and "fst ` set (returns n0) \<subseteq> {x. \<exists>s. IsValid api s x}"
    and "set after - set (ProcessedObjects B)
           \<subseteq> fst ` set (returns n0) \<union> {x. \<exists>s. \<not> IsValid api s x}"
    and "distinct (deletions n0)"
    and "Some ` set (deletions n0) \<subseteq> fst ` set (returns n0)"
    by (elim exE conjE) (rule that)
  have npx: "x \<notin> set (ProcessedObjects Bx)" using pa na np by simp
  let ?B1 = "SafeDeleteObjects_body api x Bx"
  from SafeDeleteObjects_body_step[of Bx api x] obtain n1 where
    bs1: "batch_step Bx n1 ?B1" and "collections n1 = []"
    and p1: "set (ProcessedObjects ?B1) = insert x (set (ProcessedObjects Bx))"
    and "(returns n1 = [] \<and> deletions n1 = []
          \<and> (x \<in> set (ProcessedObjects Bx) \<or> \<not> IsValid api (fst (Editor Bx)) x))
         \<or> (x \<notin> set (ProcessedObjects Bx) \<and> IsValid api (fst (Editor Bx)) x
            \<and> (\<exists>d p m. returns n1 = [(x, d, p, m)])
            \<and> (deletions n1 = [] \<or> (\<exists>obj. x = Some obj \<and> deletions n1 = [obj])))"
    by (elim exE conjE) (rule that)
  note r1 = SafeDeleteObjects_body_returns[OF npx bs1]
  from SafeDeleteObjects_loop_steps[of api before ?B1] obtain n2 B' where
    lb: "SafeDeleteObjects_loop api before ?B1 = ([], B')" and bsb: "batch_step ?B1 n2 B'"
    and "collections n2 = []"
    and "set (ProcessedObjects B') = set (ProcessedObjects ?B1) \<union> set before"
    and "distinct (map fst (returns n2))"
    and rb: "fst ` set (returns n2) \<subseteq> set before - set (ProcessedObjects ?B1)"
    and "fst ` set (returns n2) \<subseteq> {x. \<exists>s. IsValid api s x}"
    and "set before - set (ProcessedObjects ?B1)
           \<subseteq> fst ` set (returns n2) \<union> {x. \<exists>s. \<not> IsValid api s x}"
    and "distinct (deletions n2)"
    and "Some ` set (deletions n2) \<subseteq> fst ` set (returns n2)"
    by (elim exE conjE) (rule that)
  have "SafeDeleteObjects_loop api (before @ x # after) B
          = SafeDeleteObjects_loop api (before @ [x]) Bx"
    using SafeDeleteObjects_loop_append[of api "before @ [x]" after B] by (simp add: la)
  also have "\<dots> = ([], B')"
    using SafeDeleteObjects_loop_snoc[of api before x Bx] by (simp add: lb)
  finally have l: "SafeDeleteObjects_loop api (before @ x # after) B = ([], B')" .
  have bs: "batch_step B (n0 @ n1 @ n2) B'"
    by (rule batch_step_trans[OF bsa batch_step_trans[OF bs1 bsb]])
  have f0: "filter (\<lambda>r. fst r = x) (returns n0) = []"
    using ra na by (auto simp: filter_empty_conv)
  have f2: "filter (\<lambda>r. fst r = x) (returns n2) = []"
    using rb p1 by (auto simp: filter_empty_conv)
  have f1: "filter (\<lambda>r. fst r = x) (returns n1) = returns n1"
  proof (cases "IsValid api (fst (Editor Bx)) x")
    case False
    with r1 have "returns n1 = []" by simp
    then show ?thesis by simp
  next
    case True
    obtain d p m ed where "SafeDeleteSingleObject api (Editor Bx) x = (d, p, m, ed)"
      by (cases "SafeDeleteSingleObject api (Editor Bx) x") auto
    with r1 True have "returns n1 = [(x, d, p, m)]" by simp
    then show ?thesis by simp
  qed
  have fa: "filter (\<lambda>r. fst r = x) (returns (n0 @ n1 @ n2)) = returns n1"
    by (simp add: f0 f1 f2)
  note fx = trans[OF fa r1]
  have bx: "snd (SafeDeleteObjects_loop api after B) = Bx" by (simp add: la)
  show ?thesis
    apply (rule exI[of _ "n0 @ n1 @ n2"], rule exI[of _ B'])
    unfolding bx
    apply (intro conjI)
    apply (rule l)
    apply (rule bs)
    apply (rule fx)
    done
qed

lemma SafeDeleteObjects_via_loop:
  assumes "SafeDeleteObjects_loop api xs
             \<lparr>NumDeleted = 0, bGarbageCollectionRequired = False, PackagesToCleanUp = [],
              ProcessedObjects = [], OutObjectsNotDeleted = out, Editor = ed\<rparr> = ([], B')"
  shows "\<exists>fin s'. SafeDeleteObjects api ed xs out
                    = (NumDeleted B', [], OutObjectsNotDeleted B', (s', snd (Editor B') @ fin))
                  \<and> returns fin = []"
proof -
  let ?gc = "bGarbageCollectionRequired B' \<and> length (PackagesToCleanUp B') \<le> 0"
  let ?cl = "length (PackagesToCleanUp B') > 0"
  let ?ed1 = "if ?gc then (CollectGarbage api (fst (Editor B')),
                           snd (Editor B') @ [Call_CollectGarbage]) else Editor B'"
  let ?ed2 = "if ?cl then (CleanupAfterSuccessfulDelete api (fst ?ed1) (PackagesToCleanUp B'),
                           snd ?ed1 @ [Call_CleanupAfterSuccessfulDelete (PackagesToCleanUp B')])
              else ?ed1"
  have r: "SafeDeleteObjects api ed xs out
             = (NumDeleted B', [], OutObjectsNotDeleted B', ?ed2)"
    by (simp add: SafeDeleteObjects_def assms Let_def)
  let ?fin = "(if ?gc then [Call_CollectGarbage] else [])
              @ (if ?cl then [Call_CleanupAfterSuccessfulDelete (PackagesToCleanUp B')] else [])"
  have e: "?ed2 = (fst ?ed2, snd (Editor B') @ ?fin)"
    by (cases "Editor B'") simp
  have f: "returns ?fin = []" by simp
  show ?thesis
    apply (rule exI[of _ ?fin], rule exI[of _ "fst ?ed2"])
    apply (rule conjI)
    apply (subst r, subst e, rule refl)
    apply (rule f)
    done
qed


lemma reported_iff:
  "x \<in> set (map fst (filter P rs)) \<longleftrightarrow> filter P (filter (\<lambda>r. fst r = x) rs) \<noteq> []"
  by (induction rs) auto

text \<open>
  Claim C5, as amended. With a non-null \<^verbatim>\<open>OutObjectsNotDeleted\<close>, the function returns (it is
  total: no failure is an exception) and what it appends is the objects on which
  \<^verbatim>\<open>SafeDeleteSingleObject\<close> returned false, in the order of the returns, each object at most
  once. Take any object of the array at its last position, the one popped first, and the
  batch at that pop. If the object passes \<^verbatim>\<open>IsValid\<close> in the editor state of that batch,
  \<^verbatim>\<open>SafeDeleteSingleObject\<close> is run on it there, once, and logs that run's results; if it
  fails \<^verbatim>\<open>IsValid\<close> there, no run on it is ever logged. So the object is among those
  appended exactly when it passes \<^verbatim>\<open>IsValid\<close> at its pop and \<^verbatim>\<open>SafeDeleteSingleObject\<close>, run in
  that state, does not delete it.
\<close>

theorem SafeDeleteObjects_reports_failed_attempts:
  "\<exists>new s'.
     SafeDeleteObjects api (s, log) xs (Some nd)
       = (fst (SafeDeleteObjects api (s, log) xs (Some nd)), [],
          Some (nd @ map fst (filter (\<lambda>r. \<not> fst (snd r)) (returns new))), (s', log @ new))
     \<and> distinct (map fst (returns new))
     \<and> fst ` set (returns new) \<subseteq> set xs
     \<and> (\<forall>before x after. xs = before @ x # after \<and> x \<notin> set after \<longrightarrow>
          filter (\<lambda>r. fst r = x) (returns new) =
            (if IsValid api (fst (Editor (batch_at_pop api (s, log) (Some nd) after))) x
             then (case SafeDeleteSingleObject api
                          (Editor (batch_at_pop api (s, log) (Some nd) after)) x of
                     (d, p, m, ed) \<Rightarrow> [(x, d, p, m)])
             else [])
          \<and> (x \<in> set (map fst (filter (\<lambda>r. \<not> fst (snd r)) (returns new)))
               \<longleftrightarrow> IsValid api (fst (Editor (batch_at_pop api (s, log) (Some nd) after))) x
                   \<and> \<not> fst (SafeDeleteSingleObject api
                               (Editor (batch_at_pop api (s, log) (Some nd) after)) x)))"
proof -
  let ?B0 = "\<lparr>NumDeleted = 0, bGarbageCollectionRequired = False, PackagesToCleanUp = [],
              ProcessedObjects = [], OutObjectsNotDeleted = Some nd, Editor = (s, log)\<rparr>"
  from SafeDeleteObjects_loop_steps[of api xs ?B0] obtain new0 B' where
    l: "SafeDeleteObjects_loop api xs ?B0 = ([], B')" and bs: "batch_step ?B0 new0 B'"
    and "collections new0 = []"
    and "set (ProcessedObjects B') = set (ProcessedObjects ?B0) \<union> set xs"
    and d: "distinct (map fst (returns new0))"
    and r: "fst ` set (returns new0) \<subseteq> set xs - set (ProcessedObjects ?B0)"
    and "fst ` set (returns new0) \<subseteq> {x. \<exists>s. IsValid api s x}"
    and "set xs - set (ProcessedObjects ?B0)
           \<subseteq> fst ` set (returns new0) \<union> {x. \<exists>s. \<not> IsValid api s x}"
    and "distinct (deletions new0)"
    and "Some ` set (deletions new0) \<subseteq> fst ` set (returns new0)"
    by (elim exE conjE) (rule that)
  from SafeDeleteObjects_via_loop[OF l] obtain fin s' where
    res: "SafeDeleteObjects api (s, log) xs (Some nd)
            = (NumDeleted B', [], OutObjectsNotDeleted B', (s', snd (Editor B') @ fin))"
    and rf: "returns fin = []"
    by blast
  from bs have lg: "snd (Editor B') = log @ new0"
    and out: "OutObjectsNotDeleted B'
                = Some (nd @ map fst (filter (\<lambda>r. \<not> fst (snd r)) (returns new0)))"
    by (simp_all add: batch_step_def)
  let ?new = "new0 @ fin"
  have rn: "returns ?new = returns new0" by (simp add: rf)
  have e: "SafeDeleteObjects api (s, log) xs (Some nd)
       = (fst (SafeDeleteObjects api (s, log) xs (Some nd)), [],
          Some (nd @ map fst (filter (\<lambda>r. \<not> fst (snd r)) (returns new0))), (s', log @ ?new))"
    by (simp add: res out lg)
  have r': "fst ` set (returns new0) \<subseteq> set xs" using r by simp
  have pop: "filter (\<lambda>r. fst r = x) (returns new0) =
            (if IsValid api (fst (Editor (batch_at_pop api (s, log) (Some nd) after))) x
             then (case SafeDeleteSingleObject api
                          (Editor (batch_at_pop api (s, log) (Some nd) after)) x of
                     (d, p, m, ed) \<Rightarrow> [(x, d, p, m)])
             else [])"
    if dec: "xs = before @ x # after" and na: "x \<notin> set after" for before x after
  proof -
    have np: "x \<notin> set (ProcessedObjects ?B0)" by simp
    from SafeDeleteObjects_loop_at_pop[OF na np, of api before] obtain newD BD where
      lD: "SafeDeleteObjects_loop api (before @ x # after) ?B0 = ([], BD)"
      and bsD: "batch_step ?B0 newD BD"
      and fD: "filter (\<lambda>r. fst r = x) (returns newD) =
               (if IsValid api (fst (Editor (snd (SafeDeleteObjects_loop api after ?B0)))) x
                then (case SafeDeleteSingleObject api
                             (Editor (snd (SafeDeleteObjects_loop api after ?B0))) x of
                        (d, p, m, ed) \<Rightarrow> [(x, d, p, m)])
                else [])"
      by (elim exE conjE) (rule that)
    from lD l dec have "BD = B'" by simp
    with bsD have "snd (Editor B') = log @ newD" by (simp add: batch_step_def)
    with lg have "newD = new0" by simp
    with fD show ?thesis by (simp only: batch_at_pop_def)
  qed
  have rep: "(x \<in> set (map fst (filter (\<lambda>r. \<not> fst (snd r)) (returns new0))))
               = (IsValid api (fst (Editor (batch_at_pop api (s, log) (Some nd) after))) x
                   \<and> \<not> fst (SafeDeleteSingleObject api
                               (Editor (batch_at_pop api (s, log) (Some nd) after)) x))"
    if dec: "xs = before @ x # after" and na: "x \<notin> set after" for before x after
  proof (cases "IsValid api (fst (Editor (batch_at_pop api (s, log) (Some nd) after))) x")
    case False
    with pop[OF dec na] have "filter (\<lambda>r. fst r = x) (returns new0) = []" by simp
    with False show ?thesis unfolding reported_iff by simp
  next
    case True
    obtain d0 p0 m0 ed0 where
      sd: "SafeDeleteSingleObject api (Editor (batch_at_pop api (s, log) (Some nd) after)) x
             = (d0, p0, m0, ed0)"
      by (cases "SafeDeleteSingleObject api
                   (Editor (batch_at_pop api (s, log) (Some nd) after)) x") auto
    with pop[OF dec na] True
    have "filter (\<lambda>r. fst r = x) (returns new0) = [(x, d0, p0, m0)]" by simp
    with True sd show ?thesis unfolding reported_iff by simp
  qed
  show ?thesis
    apply (rule exI[of _ ?new], rule exI[of _ s'])
    unfolding rn
    apply (intro conjI allI impI)
    apply (rule e)
    apply (rule d)
    apply (rule r')
    subgoal for before x after using pop[of before x after] by blast
    subgoal for before x after using rep[of before x after] by blast
    done
qed


theorem SafeDeleteObjects_reports_failed_attempts_witness:
  "SafeDeleteObjects example_delete_api ({9}, []) [Some 9, Some 5, Some 5] (Some []) =
     (0, [], Some [Some 5],
      ({9},
       [Call_GatherObjectReferencersForDeletion 5, Log_Warning 5,
        Returned (Some 5) False None False]))
   \<and> IsValid example_delete_api
        (fst (Editor (batch_at_pop example_delete_api ({9}, []) (Some []) []))) (Some 5)
   \<and> \<not> fst (SafeDeleteSingleObject example_delete_api
               (Editor (batch_at_pop example_delete_api ({9}, []) (Some []) [])) (Some 5))
   \<and> \<not> IsValid example_delete_api
          (fst (Editor (batch_at_pop example_delete_api ({9}, []) (Some []) [Some 5, Some 5])))
          (Some 9)
   \<and> (\<exists>new :: (nat, nat) event list.
         Some [Some (5::nat)] = Some ([] @ map fst (filter (\<lambda>r. \<not> fst (snd r)) (returns new)))
         \<and> distinct (map fst (returns new))
         \<and> Some 5 \<in> set (map fst (filter (\<lambda>r. \<not> fst (snd r)) (returns new)))
         \<and> Some 9 \<notin> set (map fst (filter (\<lambda>r. \<not> fst (snd r)) (returns new))))"
proof -
  let ?api = "example_delete_api"
  let ?xs = "[Some 9, Some 5, Some (5::nat)]"
  have e: "SafeDeleteObjects ?api ({9}, []) ?xs (Some []) =
     (0, [], Some [Some 5],
      ({9},
       [Call_GatherObjectReferencersForDeletion 5, Log_Warning 5,
        Returned (Some 5) False None False]))"
    by (simp add: SafeDeleteObjects_def SafeDeleteObjects_loop.simps SafeDeleteObjects_body_def
        SafeDeleteSingleObject_def IsValid_def TSet_Add_def example_delete_api_def Let_def)
  have v5: "IsValid ?api (fst (Editor (batch_at_pop ?api ({9}, []) (Some []) []))) (Some 5)"
    by (simp add: batch_at_pop_def SafeDeleteObjects_loop.simps IsValid_def
          example_delete_api_def)
  have f5: "\<not> fst (SafeDeleteSingleObject ?api
                    (Editor (batch_at_pop ?api ({9}, []) (Some []) [])) (Some 5))"
    by (simp add: batch_at_pop_def SafeDeleteObjects_loop.simps SafeDeleteSingleObject_def
          example_delete_api_def)
  have v9: "\<not> IsValid ?api
               (fst (Editor (batch_at_pop ?api ({9}, []) (Some []) [Some 5, Some 5]))) (Some 9)"
    by (simp add: batch_at_pop_def SafeDeleteObjects_loop.simps SafeDeleteObjects_body_def
          SafeDeleteSingleObject_def IsValid_def TSet_Add_def example_delete_api_def Let_def)
  from SafeDeleteObjects_reports_failed_attempts[of ?api "{9}" "[]" ?xs "[]"]
  obtain new s' where
    h: "SafeDeleteObjects ?api ({9}, []) ?xs (Some [])
       = (fst (SafeDeleteObjects ?api ({9}, []) ?xs (Some [])), [],
          Some ([] @ map fst (filter (\<lambda>r. \<not> fst (snd r)) (returns new))), (s', [] @ new))"
    and d: "distinct (map fst (returns new))"
    and "fst ` set (returns new) \<subseteq> set ?xs"
    and a: "\<forall>before x after. ?xs = before @ x # after \<and> x \<notin> set after \<longrightarrow>
          filter (\<lambda>r. fst r = x) (returns new) =
            (if IsValid ?api (fst (Editor (batch_at_pop ?api ({9}, []) (Some []) after))) x
             then (case SafeDeleteSingleObject ?api
                          (Editor (batch_at_pop ?api ({9}, []) (Some []) after)) x of
                     (d, p, m, ed) \<Rightarrow> [(x, d, p, m)])
             else [])
          \<and> (x \<in> set (map fst (filter (\<lambda>r. \<not> fst (snd r)) (returns new)))
               \<longleftrightarrow> IsValid ?api (fst (Editor (batch_at_pop ?api ({9}, []) (Some []) after))) x
                   \<and> \<not> fst (SafeDeleteSingleObject ?api
                               (Editor (batch_at_pop ?api ({9}, []) (Some []) after)) x))"
    by (elim exE conjE) (rule that)
  from h have o: "Some [Some (5::nat)]
                    = Some ([] @ map fst (filter (\<lambda>r. \<not> fst (snd r)) (returns new)))"
    unfolding e by simp
  have d5: "?xs = [Some 9, Some 5] @ Some 5 # [] \<and> Some 5 \<notin> set ([] :: nat option list)"
    by simp
  have d9: "?xs = [] @ Some 9 # [Some 5, Some 5] \<and> Some 9 \<notin> set [Some (5::nat), Some 5]"
    by simp
  from a[rule_format, OF d5] v5 f5
  have m5: "Some 5 \<in> set (map fst (filter (\<lambda>r. \<not> fst (snd r)) (returns new)))" by blast
  from a[rule_format, OF d9] v9
  have m9: "Some 9 \<notin> set (map fst (filter (\<lambda>r. \<not> fst (snd r)) (returns new)))" by blast
  from o d m5 m9 have "\<exists>new :: (nat, nat) event list.
         Some [Some (5::nat)] = Some ([] @ map fst (filter (\<lambda>r. \<not> fst (snd r)) (returns new)))
         \<and> distinct (map fst (returns new))
         \<and> Some 5 \<in> set (map fst (filter (\<lambda>r. \<not> fst (snd r)) (returns new)))
         \<and> Some 9 \<notin> set (map fst (filter (\<lambda>r. \<not> fst (snd r)) (returns new)))"
    by (intro exI[of _ new] conjI)
  with e v5 f5 v9 show ?thesis by (intro conjI)
qed


text \<open>
  Claim C5 as stated fails: object 9 is pending kill when the batch \<^verbatim>\<open>[9]\<close> is processed. It is
  not deleted (the count is 0 and nothing is logged) and it is not appended to the
  not-deleted array, which is still empty.
\<close>

theorem SafeDeleteObjects_invalid_object_not_reported:
  "SafeDeleteObjects example_delete_api ({9}, []) [Some 9] (Some []) = (0, [], Some [], ({9}, []))"
  by (simp add: SafeDeleteObjects_def SafeDeleteObjects_loop.simps SafeDeleteObjects_body_def
        SafeDeleteSingleObject_def IsValid_def TSet_Add_def example_delete_api_def Let_def)


section \<open>Theorems: property propagation\<close>

lemma CopyProperty_body_skip:
  assumes "\<not> (passes_filters api Options Src p
               \<and> PropertyValue S Src p \<noteq> PropertyValue S Tgt p)"
  shows "CopyProperty_body api Options Src Tgt Insts (GetUCSModifiedProperties api Src) p (S, n, R)
           = Some (S, n, R)"
  using assms
  by (auto simp add: CopyProperty_body_def passes_filters_def Identical_InContainer_def Let_def)

lemma CopyProperty_body_preview:
  assumes "passes_filters api Options Src p"
      and "PropertyValue S Src p \<noteq> PropertyValue S Tgt p"
      and "PreviewOnly \<in> Flags Options"
  shows "CopyProperty_body api Options Src Tgt Insts (GetUCSModifiedProperties api Src) p (S, n, R)
           = Some (S, n + 1, R)"
  using assms
  by (simp add: CopyProperty_body_def passes_filters_def Identical_InContainer_def Let_def)

lemma CopyProperty_body_copy:
  assumes "passes_filters api Options Src p"
      and "PropertyValue S Src p \<noteq> PropertyValue S Tgt p"
      and "PreviewOnly \<notin> Flags Options"
  shows "CopyProperty_body api Options Src Tgt Insts (GetUCSModifiedProperties api Src) p (S, n, R)
           = (let S1 = Modify (Component Tgt) (SetFlags_RF_Transactional (Component Tgt) S);
                  S2 = (if CallPostEditChangeProperty \<in> Flags Options
                        then Notify (PreEditChange Tgt p) S1 else S1)
              in case (if PropagateChangesToArchetypeInstances \<in> Flags Options
                       then InstancesToChange api S2 p Tgt Insts [] else Some []) of
                   None \<Rightarrow> None
                 | Some tc \<Rightarrow>
                     let S3 = CopySingleProperty Src Tgt p S2;
                         S4 = (if CallPostEditChangeProperty \<in> Flags Options
                               then Notify (PostEditChangeProperty Tgt p) S3 else S3);
                         X5 = (if PropagateChangesToArchetypeInstances \<in> Flags Options
                               then fold (PropagateToInstance api p Tgt) tc
                                      (S4, {Component Tgt}, R)
                               else (S4, {Component Tgt}, R))
                     in Some (fst X5, n + 1, snd (snd X5)))"
  using assms
  by (simp add: CopyProperty_body_def passes_filters_def Identical_InContainer_def Let_def
           split: option.splits prod.splits)


lemma PropertyValue_simps [simp]:
  "PropertyValue (Modify obj S) = PropertyValue S"
  "PropertyValue (SetFlags_RF_Transactional obj S) = PropertyValue S"
  "PropertyValue (Notify nt S) = PropertyValue S"
  "PropertyValue (UnregisterComponent c S) = PropertyValue S"
  "PropertyValue (RegisterComponent c S) = PropertyValue S"
  "PropertyValue (CopySingleProperty a b p S) c q =
     (if c = b \<and> q = p then PropertyValue S a p else PropertyValue S c q)"
  by (simp_all add: Modify_def SetFlags_RF_Transactional_def Notify_def UnregisterComponent_def
        RegisterComponent_def CopySingleProperty_def)

lemma HasRF_simps [simp]:
  "HasRF_Transactional (Modify obj S) = HasRF_Transactional S"
  "HasRF_Transactional (SetFlags_RF_Transactional obj S) = insert obj (HasRF_Transactional S)"
  "HasRF_Transactional (Notify nt S) = HasRF_Transactional S"
  "HasRF_Transactional (UnregisterComponent c S) = HasRF_Transactional S"
  "HasRF_Transactional (RegisterComponent c S) = HasRF_Transactional S"
  "HasRF_Transactional (CopySingleProperty a b p S) = HasRF_Transactional S"
  by (simp_all add: Modify_def SetFlags_RF_Transactional_def Notify_def UnregisterComponent_def
        RegisterComponent_def CopySingleProperty_def)

lemma Recorded_simps [simp]:
  "RecordedForUndo (Modify obj S) = RecordedForUndo S @ [obj]"
  "RecordedForUndo (SetFlags_RF_Transactional obj S) = RecordedForUndo S"
  "RecordedForUndo (Notify nt S) = RecordedForUndo S"
  "RecordedForUndo (UnregisterComponent c S) = RecordedForUndo S"
  "RecordedForUndo (RegisterComponent c S) = RecordedForUndo S"
  "RecordedForUndo (CopySingleProperty a b p S) = RecordedForUndo S"
  by (simp_all add: Modify_def SetFlags_RF_Transactional_def Notify_def UnregisterComponent_def
        RegisterComponent_def CopySingleProperty_def)

lemma PropagateToInstance_effect:
  assumes "PropagateToInstance api p Tgt i (S, M, R) = (S', M', R')"
      and "i \<noteq> Tgt"
      and "\<forall>c. Component c \<in> M \<longrightarrow> marked S (Component c)"
  shows "(\<forall>c q. PropertyValue S' c q =
            (if c = i \<and> q = p then PropertyValue S Tgt p else PropertyValue S c q))
         \<and> HasRF_Transactional S \<subseteq> HasRF_Transactional S'
         \<and> set (RecordedForUndo S) \<subseteq> set (RecordedForUndo S')
         \<and> (\<not> IsCreatedByConstructionScript api i \<longrightarrow> marked S' (Component i))
         \<and> (\<forall>c. Component c \<in> M' \<longrightarrow> marked S' (Component c))"
  using assms
  by (auto simp add: PropagateToInstance_def Let_def marked_def
           split: if_splits option.splits prod.splits)

lemma marked_mono:
  "marked S obj \<Longrightarrow> HasRF_Transactional S \<subseteq> HasRF_Transactional S'
     \<Longrightarrow> set (RecordedForUndo S) \<subseteq> set (RecordedForUndo S') \<Longrightarrow> marked S' obj"
  by (auto simp: marked_def)


lemma fold_Propagate_effect:
  assumes "fold (PropagateToInstance api p Tgt) tc (S, M, R) = (S', M', R')"
      and "Tgt \<notin> set tc"
      and "\<forall>c. Component c \<in> M \<longrightarrow> marked S (Component c)"
  shows "(\<forall>c q. PropertyValue S' c q =
            (if c \<in> set tc \<and> q = p then PropertyValue S Tgt p else PropertyValue S c q))
         \<and> HasRF_Transactional S \<subseteq> HasRF_Transactional S'
         \<and> set (RecordedForUndo S) \<subseteq> set (RecordedForUndo S')
         \<and> (\<forall>i\<in>set tc. \<not> IsCreatedByConstructionScript api i \<longrightarrow> marked S' (Component i))
         \<and> (\<forall>c. Component c \<in> M' \<longrightarrow> marked S' (Component c))"
  using assms
proof (induction tc arbitrary: S M R)
  case Nil
  then show ?case by simp
next
  case (Cons i tc)
  obtain S1 M1 R1 where st: "PropagateToInstance api p Tgt i (S, M, R) = (S1, M1, R1)"
    by (cases "PropagateToInstance api p Tgt i (S, M, R)") auto
  from Cons.prems(2) have ne: "i \<noteq> Tgt" and nt: "Tgt \<notin> set tc" by auto
  from PropagateToInstance_effect[OF st ne Cons.prems(3)] have
    e1: "\<And>c q. PropertyValue S1 c q =
            (if c = i \<and> q = p then PropertyValue S Tgt p else PropertyValue S c q)"
    and e2: "HasRF_Transactional S \<subseteq> HasRF_Transactional S1"
    and e3: "set (RecordedForUndo S) \<subseteq> set (RecordedForUndo S1)"
    and e4: "\<not> IsCreatedByConstructionScript api i \<longrightarrow> marked S1 (Component i)"
    and e5: "\<forall>c. Component c \<in> M1 \<longrightarrow> marked S1 (Component c)"
    by blast+
  from Cons.prems(1) st
  have f: "fold (PropagateToInstance api p Tgt) tc (S1, M1, R1) = (S', M', R')" by simp
  from Cons.IH[OF f nt e5] have
    i1: "\<And>c q. PropertyValue S' c q =
            (if c \<in> set tc \<and> q = p then PropertyValue S1 Tgt p else PropertyValue S1 c q)"
    and i2: "HasRF_Transactional S1 \<subseteq> HasRF_Transactional S'"
    and i3: "set (RecordedForUndo S1) \<subseteq> set (RecordedForUndo S')"
    and i4: "\<forall>i\<in>set tc. \<not> IsCreatedByConstructionScript api i \<longrightarrow> marked S' (Component i)"
    and i5: "\<forall>c. Component c \<in> M' \<longrightarrow> marked S' (Component c)"
    by blast+
  have v: "\<forall>c q. PropertyValue S' c q =
            (if c \<in> set (i # tc) \<and> q = p then PropertyValue S Tgt p else PropertyValue S c q)"
    using ne by (simp add: i1 e1)
  have m: "\<forall>j\<in>set (i # tc). \<not> IsCreatedByConstructionScript api j \<longrightarrow> marked S' (Component j)"
    using e4 i4 marked_mono[OF _ i2 i3] by auto
  show ?case
    using v m i5 e2 i2 e3 i3 by (intro conjI) (assumption | blast)+
qed

lemma ShouldAdd_True:
  assumes id: "PropertyValue S i p = PropertyValue S Tgt p"
      and sa: "ShouldAdd api S p Tgt i = Some True"
  shows "chain_matches api S p Tgt i"
proof (cases "GetArchetype api i = Some (Component Tgt)")
  case True
  then show ?thesis by (simp add: chain_matches_def)
next
  case False
  let ?W = "\<lambda>c. WalkArchetypes api S p Tgt i c = Some True"
  have first: "?W c" if "GetArchetype api i = Some (Component c)" for c
    using sa False that by (simp add: ShouldAdd_def CastChecked_UActorComponent_def)
  have step: "?W c'" if "?W c" and "GetArchetype api c = Some (Component c')" for c c'
  proof (cases "c = i")
    case True
    with that(2) first show ?thesis by simp
  next
    case ne: False
    from that(1) have "(if \<not> Identical_InContainer S p c Tgt then Some False
           else (case CastChecked_UActorComponent (GetArchetype api c) of
                   None \<Rightarrow> None
                 | Some Next \<Rightarrow> WalkArchetypes api S p Tgt i Next)) = Some True"
      using ne by (subst (asm) WalkArchetypes.simps) simp
    with that(2) show ?thesis
      by (simp add: CastChecked_UActorComponent_def split: if_splits)
  qed
  have val: "PropertyValue S c p = PropertyValue S Tgt p" if "?W c" for c
  proof (cases "c = i")
    case True
    with id show ?thesis by simp
  next
    case ne: False
    from that have "(if \<not> Identical_InContainer S p c Tgt then Some False
           else (case CastChecked_UActorComponent (GetArchetype api c) of
                   None \<Rightarrow> None
                 | Some Next \<Rightarrow> WalkArchetypes api S p Tgt i Next)) = Some True"
      using ne by (subst (asm) WalkArchetypes.simps) simp
    then show ?thesis by (simp add: Identical_InContainer_def split: if_splits)
  qed
  have "?W c" if "(i, c) \<in> (archetype_of api)\<^sup>+" for c
    using that
  proof (induction rule: trancl_induct)
    case (base y)
    then show ?case using first by (simp add: archetype_of_def)
  next
    case (step y z)
    then show ?case using \<open>\<And>c' c. \<lbrakk>?W c; GetArchetype api c = Some (Component c')\<rbrakk> \<Longrightarrow> ?W c'\<close>
      by (simp add: archetype_of_def)
  qed
  with val show ?thesis by (simp add: chain_matches_def)
qed

lemma InstancesToChange_sound:
  assumes "InstancesToChange api S p Tgt insts acc = Some tc"
  shows "\<forall>i\<in>set tc. i \<in> set acc
            \<or> (i \<in> set insts \<and> PropertyValue S i p = PropertyValue S Tgt p
               \<and> chain_matches api S p Tgt i)"
  using assms
proof (induction insts arbitrary: acc)
  case Nil
  then show ?case by simp
next
  case (Cons a insts)
  show ?case
  proof (cases "Identical_InContainer S p a Tgt")
    case False
    with Cons.prems have "InstancesToChange api S p Tgt insts acc = Some tc" by simp
    from Cons.IH[OF this] show ?thesis by auto
  next
    case True
    then have id: "PropertyValue S a p = PropertyValue S Tgt p"
      by (simp add: Identical_InContainer_def)
    from Cons.prems True obtain b where sa: "ShouldAdd api S p Tgt a = Some b"
      by (cases "ShouldAdd api S p Tgt a") auto
    show ?thesis
    proof (cases b)
      case False
      with Cons.prems True sa have "InstancesToChange api S p Tgt insts acc = Some tc" by simp
      from Cons.IH[OF this] show ?thesis by auto
    next
      case bT: True
      with Cons.prems True sa
      have "InstancesToChange api S p Tgt insts (acc @ [a]) = Some tc" by simp
      from Cons.IH[OF this]
      have ih: "\<forall>i\<in>set tc. i \<in> set (acc @ [a])
            \<or> (i \<in> set insts \<and> PropertyValue S i p = PropertyValue S Tgt p
               \<and> chain_matches api S p Tgt i)" .
      have cm: "chain_matches api S p Tgt a"
        using sa bT by (intro ShouldAdd_True[OF id]) simp
      from ih cm id show ?thesis by auto
    qed
  qed
qed


lemma CopyProperty_body_copy_effect:
  assumes pf: "passes_filters api Options Src p"
      and ne: "PropertyValue S Src p \<noteq> PropertyValue S Tgt p"
      and np: "PreviewOnly \<notin> Flags Options"
      and ti: "Tgt \<notin> set Insts"
      and r: "CopyProperty_body api Options Src Tgt Insts (GetUCSModifiedProperties api Src) p
                (S, n, R) = Some (S', n', R')"
  shows "\<exists>tc. set tc \<subseteq> set Insts
           \<and> (PropagateChangesToArchetypeInstances \<notin> Flags Options \<longrightarrow> tc = [])
           \<and> (\<forall>i\<in>set tc. PropertyValue S i p = PropertyValue S Tgt p
                          \<and> chain_matches api S p Tgt i)
           \<and> n' = n + 1
           \<and> (\<forall>c q. PropertyValue S' c q =
                 (if q = p \<and> (c = Tgt \<or> c \<in> set tc) then PropertyValue S Src p
                  else PropertyValue S c q))
           \<and> marked S' (Component Tgt)
           \<and> (\<forall>i\<in>set tc. \<not> IsCreatedByConstructionScript api i \<longrightarrow> marked S' (Component i))
           \<and> HasRF_Transactional S \<subseteq> HasRF_Transactional S'
           \<and> set (RecordedForUndo S) \<subseteq> set (RecordedForUndo S')"
proof -
  let ?S1 = "Modify (Component Tgt) (SetFlags_RF_Transactional (Component Tgt) S)"
  let ?S2 = "if CallPostEditChangeProperty \<in> Flags Options
             then Notify (PreEditChange Tgt p) ?S1 else ?S1"
  let ?itc = "if PropagateChangesToArchetypeInstances \<in> Flags Options
              then InstancesToChange api ?S2 p Tgt Insts [] else Some []"
  have v2: "PropertyValue ?S2 = PropertyValue S" by simp
  have h2: "HasRF_Transactional ?S2 = insert (Component Tgt) (HasRF_Transactional S)" by simp
  have r2: "set (RecordedForUndo ?S2) = insert (Component Tgt) (set (RecordedForUndo S))" by simp
  note bc = CopyProperty_body_copy[OF pf ne np, of Insts n R]
  from r bc obtain tc where tc: "?itc = Some tc"
    by (cases ?itc) (simp_all add: Let_def)
  let ?S3 = "CopySingleProperty Src Tgt p ?S2"
  let ?S4 = "if CallPostEditChangeProperty \<in> Flags Options
             then Notify (PostEditChangeProperty Tgt p) ?S3 else ?S3"
  let ?X5 = "if PropagateChangesToArchetypeInstances \<in> Flags Options
             then fold (PropagateToInstance api p Tgt) tc (?S4, {Component Tgt}, R)
             else (?S4, {Component Tgt}, R)"
  from r bc tc have res: "S' = fst ?X5" "n' = n + 1" "R' = snd (snd ?X5)"
    by (simp_all add: Let_def)
  have v4: "PropertyValue ?S4 c q =
              (if c = Tgt \<and> q = p then PropertyValue S Src p else PropertyValue S c q)" for c q
    by simp
  have h4: "HasRF_Transactional ?S4 = insert (Component Tgt) (HasRF_Transactional S)" by simp
  have r4: "set (RecordedForUndo ?S4) = insert (Component Tgt) (set (RecordedForUndo S))" by simp
  have m4: "marked ?S4 (Component Tgt)" unfolding marked_def h4 r4 by simp
  have sound: "\<forall>i\<in>set tc. i \<in> set Insts \<and> PropertyValue S i p = PropertyValue S Tgt p
                   \<and> chain_matches api S p Tgt i"
       and nopr: "PropagateChangesToArchetypeInstances \<notin> Flags Options \<longrightarrow> tc = []"
  proof -
    show "PropagateChangesToArchetypeInstances \<notin> Flags Options \<longrightarrow> tc = []"
      using tc by auto
    show "\<forall>i\<in>set tc. i \<in> set Insts \<and> PropertyValue S i p = PropertyValue S Tgt p
                   \<and> chain_matches api S p Tgt i"
    proof (cases "PropagateChangesToArchetypeInstances \<in> Flags Options")
      case False
      with tc show ?thesis by simp
    next
      case True
      with tc have "InstancesToChange api ?S2 p Tgt Insts [] = Some tc" by simp
      from InstancesToChange_sound[OF this]
      have "\<forall>i\<in>set tc. i \<in> set Insts \<and> PropertyValue ?S2 i p = PropertyValue ?S2 Tgt p
                   \<and> chain_matches api ?S2 p Tgt i" by simp
      then show ?thesis unfolding chain_matches_def v2 .
    qed
  qed
  have tt: "Tgt \<notin> set tc" using sound ti by blast
  have eff: "(\<forall>c q. PropertyValue S' c q =
                 (if c \<in> set tc \<and> q = p then PropertyValue ?S4 Tgt p else PropertyValue ?S4 c q))
           \<and> HasRF_Transactional ?S4 \<subseteq> HasRF_Transactional S'
           \<and> set (RecordedForUndo ?S4) \<subseteq> set (RecordedForUndo S')
           \<and> (\<forall>i\<in>set tc. \<not> IsCreatedByConstructionScript api i \<longrightarrow> marked S' (Component i))"
  proof (cases "PropagateChangesToArchetypeInstances \<in> Flags Options")
    case False
    with nopr res(1) show ?thesis by simp
  next
    case True
    obtain Sx Mx Rx where f: "fold (PropagateToInstance api p Tgt) tc (?S4, {Component Tgt}, R)
                               = (Sx, Mx, Rx)"
      by (cases "fold (PropagateToInstance api p Tgt) tc (?S4, {Component Tgt}, R)") auto
    have inv: "\<forall>c. Component c \<in> {Component Tgt} \<longrightarrow> marked ?S4 (Component c)"
      using m4 by simp
    from True f res(1) have sx: "S' = Sx" by simp
    from fold_Propagate_effect[OF f tt inv] show ?thesis unfolding sx by blast
  qed
  from eff have e1: "\<And>c q. PropertyValue S' c q =
                 (if c \<in> set tc \<and> q = p then PropertyValue ?S4 Tgt p else PropertyValue ?S4 c q)"
    and e2: "HasRF_Transactional ?S4 \<subseteq> HasRF_Transactional S'"
    and e3: "set (RecordedForUndo ?S4) \<subseteq> set (RecordedForUndo S')"
    and e4: "\<forall>i\<in>set tc. \<not> IsCreatedByConstructionScript api i \<longrightarrow> marked S' (Component i)"
    by blast+
  have vals: "\<forall>c q. PropertyValue S' c q =
                 (if q = p \<and> (c = Tgt \<or> c \<in> set tc) then PropertyValue S Src p
                  else PropertyValue S c q)"
    unfolding e1 v4 by auto
  have mt: "marked S' (Component Tgt)" by (rule marked_mono[OF m4 e2 e3])
  have hs: "HasRF_Transactional S \<subseteq> HasRF_Transactional S'" using e2 unfolding h4 by blast
  have rs: "set (RecordedForUndo S) \<subseteq> set (RecordedForUndo S')" using e3 unfolding r4 by blast
  have sub: "set tc \<subseteq> set Insts" using sound by blast
  have snd2: "\<forall>i\<in>set tc. PropertyValue S i p = PropertyValue S Tgt p
                          \<and> chain_matches api S p Tgt i" using sound by blast
  show ?thesis
    apply (rule exI[of _ tc])
    apply (intro conjI)
    apply (rule sub)
    apply (rule nopr)
    apply (rule snd2)
    apply (rule res(2))
    apply (rule vals)
    apply (rule mt)
    apply (rule e4)
    apply (rule hs)
    apply (rule rs)
    done
qed


lemma CopyProperty_body_effect:
  assumes ti: "Tgt \<notin> set Insts"
      and r: "CopyProperty_body api Options Src Tgt Insts (GetUCSModifiedProperties api Src) p
                (S, n, R) = Some (S', n', R')"
  shows "\<exists>tc. set tc \<subseteq> set Insts
           \<and> (tc \<noteq> [] \<longrightarrow> PropagateChangesToArchetypeInstances \<in> Flags Options)
           \<and> (\<forall>i\<in>set tc. PropertyValue S i p = PropertyValue S Tgt p
                          \<and> chain_matches api S p Tgt i
                          \<and> (\<not> IsCreatedByConstructionScript api i \<longrightarrow> marked S' (Component i)))
           \<and> n' = n + (if copy_cond api Options Src Tgt S p then 1 else 0)
           \<and> (\<forall>c q. PropertyValue S' c q =
                 (if q = p \<and> copy_cond api Options Src Tgt S p \<and> PreviewOnly \<notin> Flags Options
                     \<and> (c = Tgt \<or> c \<in> set tc)
                  then PropertyValue S Src p else PropertyValue S c q))
           \<and> HasRF_Transactional S \<subseteq> HasRF_Transactional S'
           \<and> set (RecordedForUndo S) \<subseteq> set (RecordedForUndo S')
           \<and> (PreviewOnly \<in> Flags Options \<longrightarrow> S' = S \<and> R' = R)"
proof (cases "copy_cond api Options Src Tgt S p")
  case False
  then have "\<not> (passes_filters api Options Src p
               \<and> PropertyValue S Src p \<noteq> PropertyValue S Tgt p)"
    by (simp add: copy_cond_def)
  from CopyProperty_body_skip[OF this, of Insts n R] r have "S' = S" "n' = n" "R' = R" by simp_all
  with False show ?thesis by (intro exI[of _ "[]"]) simp
next
  case cc: True
  then have pf: "passes_filters api Options Src p"
    and ne: "PropertyValue S Src p \<noteq> PropertyValue S Tgt p"
    by (simp_all add: copy_cond_def)
  show ?thesis
  proof (cases "PreviewOnly \<in> Flags Options")
    case True
    from CopyProperty_body_preview[OF pf ne True, of Insts n R] r have "S' = S" "n' = n + 1" "R' = R"
      by simp_all
    with cc True show ?thesis by (intro exI[of _ "[]"]) simp
  next
    case np: False
    from CopyProperty_body_copy_effect[OF pf ne np ti r] obtain tc where
      t: "set tc \<subseteq> set Insts"
         "PropagateChangesToArchetypeInstances \<notin> Flags Options \<longrightarrow> tc = []"
         "\<forall>i\<in>set tc. PropertyValue S i p = PropertyValue S Tgt p
                          \<and> chain_matches api S p Tgt i"
         "n' = n + 1"
         "\<forall>c q. PropertyValue S' c q =
                 (if q = p \<and> (c = Tgt \<or> c \<in> set tc) then PropertyValue S Src p
                  else PropertyValue S c q)"
         "marked S' (Component Tgt)"
         "\<forall>i\<in>set tc. \<not> IsCreatedByConstructionScript api i \<longrightarrow> marked S' (Component i)"
         "HasRF_Transactional S \<subseteq> HasRF_Transactional S'"
         "set (RecordedForUndo S) \<subseteq> set (RecordedForUndo S')"
      by (elim exE conjE) (rule that)
    have 2: "tc \<noteq> [] \<longrightarrow> PropagateChangesToArchetypeInstances \<in> Flags Options"
      using t(2) by blast
    have 3: "\<forall>i\<in>set tc. PropertyValue S i p = PropertyValue S Tgt p
                          \<and> chain_matches api S p Tgt i
                          \<and> (\<not> IsCreatedByConstructionScript api i \<longrightarrow> marked S' (Component i))"
      using t(3) t(7) by blast
    have 4: "n' = n + (if copy_cond api Options Src Tgt S p then 1 else 0)"
      using t(4) cc by simp
    have 5: "\<forall>c q. PropertyValue S' c q =
                 (if q = p \<and> copy_cond api Options Src Tgt S p \<and> PreviewOnly \<notin> Flags Options
                     \<and> (c = Tgt \<or> c \<in> set tc)
                  then PropertyValue S Src p else PropertyValue S c q)"
      using t(5) cc np by simp
    have 8: "PreviewOnly \<in> Flags Options \<longrightarrow> S' = S \<and> R' = R" using np by simp
    show ?thesis
      apply (rule exI[of _ tc])
      apply (intro conjI)
      apply (rule t(1))
      apply (rule 2)
      apply (rule 3)
      apply (rule 4)
      apply (rule 5)
      apply (rule t(8))
      apply (rule t(9))
      apply (rule 8)
      done
  qed
qed


lemma chain_matches_cong:
  assumes "\<And>x. PropertyValue S1 x q = PropertyValue S x q"
  shows "chain_matches api S1 q Tgt c = chain_matches api S q Tgt c"
  by (simp add: chain_matches_def assms)

lemma copy_cond_cong:
  assumes "\<And>x. PropertyValue S1 x q = PropertyValue S x q"
  shows "copy_cond api Options Src Tgt S1 q = copy_cond api Options Src Tgt S q"
  by (simp add: copy_cond_def assms)

lemma CopyProperties_loop_effect:
  assumes ti: "Tgt \<notin> set Insts" and si: "Src \<notin> set Insts"
      and r: "CopyProperties_loop api Options Src Tgt Insts (GetUCSModifiedProperties api Src) ps
                (S, n, R) = Some (S', n', R')"
  shows "(\<forall>c q. PropertyValue S' c q \<noteq> PropertyValue S c q \<longrightarrow>
            q \<in> set ps \<and> copy_cond api Options Src Tgt S q \<and> PreviewOnly \<notin> Flags Options
            \<and> PropertyValue S' c q = PropertyValue S Src q
            \<and> (c = Tgt
               \<or> (PropagateChangesToArchetypeInstances \<in> Flags Options \<and> c \<in> set Insts
                  \<and> PropertyValue S c q = PropertyValue S Tgt q
                  \<and> chain_matches api S q Tgt c
                  \<and> (\<not> IsCreatedByConstructionScript api c \<longrightarrow> marked S' (Component c)))))
         \<and> (\<forall>q\<in>set ps. copy_cond api Options Src Tgt S q \<and> PreviewOnly \<notin> Flags Options
               \<longrightarrow> PropertyValue S' Tgt q = PropertyValue S Src q)
         \<and> HasRF_Transactional S \<subseteq> HasRF_Transactional S'
         \<and> set (RecordedForUndo S) \<subseteq> set (RecordedForUndo S')
         \<and> (PreviewOnly \<in> Flags Options \<longrightarrow> S' = S \<and> R' = R)"
  using r
proof (induction ps arbitrary: S n R)
  case Nil
  then show ?case by simp
next
  case (Cons p ps)
  let ?cp = "copy_cond api Options Src Tgt"
  let ?pv = "PreviewOnly \<in> Flags Options"
  let ?pr = "PropagateChangesToArchetypeInstances \<in> Flags Options"
  from Cons.prems obtain S1 n1 R1 where
    b: "CopyProperty_body api Options Src Tgt Insts (GetUCSModifiedProperties api Src) p
          (S, n, R) = Some (S1, n1, R1)"
    and l: "CopyProperties_loop api Options Src Tgt Insts (GetUCSModifiedProperties api Src) ps
          (S1, n1, R1) = Some (S', n', R')"
    by (auto split: option.splits)
  from CopyProperty_body_effect[OF ti b] obtain tc where
    t1: "set tc \<subseteq> set Insts"
    and t2: "tc \<noteq> [] \<longrightarrow> ?pr"
    and t3: "\<forall>i\<in>set tc. PropertyValue S i p = PropertyValue S Tgt p
                          \<and> chain_matches api S p Tgt i
                          \<and> (\<not> IsCreatedByConstructionScript api i \<longrightarrow> marked S1 (Component i))"
    and t5: "\<And>c q. PropertyValue S1 c q =
                 (if q = p \<and> ?cp S p \<and> \<not> ?pv \<and> (c = Tgt \<or> c \<in> set tc)
                  then PropertyValue S Src p else PropertyValue S c q)"
    and t6: "HasRF_Transactional S \<subseteq> HasRF_Transactional S1"
    and t7: "set (RecordedForUndo S) \<subseteq> set (RecordedForUndo S1)"
    and t8: "?pv \<longrightarrow> S1 = S \<and> R1 = R"
    by (elim exE conjE) (rule that, blast+)
  from Cons.IH[OF l] have
    a': "\<And>c q. PropertyValue S' c q \<noteq> PropertyValue S1 c q \<Longrightarrow>
            q \<in> set ps \<and> ?cp S1 q \<and> \<not> ?pv
            \<and> PropertyValue S' c q = PropertyValue S1 Src q
            \<and> (c = Tgt
               \<or> (?pr \<and> c \<in> set Insts
                  \<and> PropertyValue S1 c q = PropertyValue S1 Tgt q
                  \<and> chain_matches api S1 q Tgt c
                  \<and> (\<not> IsCreatedByConstructionScript api c \<longrightarrow> marked S' (Component c))))"
    and b': "\<And>q. q \<in> set ps \<Longrightarrow> ?cp S1 q \<Longrightarrow> \<not> ?pv
               \<Longrightarrow> PropertyValue S' Tgt q = PropertyValue S1 Src q"
    and c1: "HasRF_Transactional S1 \<subseteq> HasRF_Transactional S'"
    and c2: "set (RecordedForUndo S1) \<subseteq> set (RecordedForUndo S')"
    and d': "?pv \<longrightarrow> S' = S1 \<and> R' = R1"
    by blast+
  have srcT: "Src \<noteq> Tgt" if "?cp S p" using that by (auto simp: copy_cond_def)
  have srcN: "Src \<notin> set tc" using si t1 by blast
  \<comment> \<open>the source keeps its values\<close>
  have K2: "PropertyValue S1 Src q = PropertyValue S Src q" for q
    using t5[of Src q] srcT srcN by auto
  \<comment> \<open>a property other than \<open>p\<close>, or \<open>p\<close> when it was not copied, keeps its values\<close>
  have E: "PropertyValue S1 x q = PropertyValue S x q" if "q \<noteq> p \<or> \<not> (?cp S p \<and> \<not> ?pv)" for x q
    using t5[of x q] that by auto
  \<comment> \<open>once copied, \<open>p\<close> is identical in source and target\<close>
  have K3: "\<not> ?cp S1 p" if "?cp S p" "\<not> ?pv"
    using t5[of Tgt p] K2[of p] that by (simp add: copy_cond_def)
  have Eq: "q \<noteq> p \<or> \<not> (?cp S p \<and> \<not> ?pv)" if "?cp S1 q" for q
    using that K3 by blast
  have A: "q \<in> set (p # ps) \<and> ?cp S q \<and> \<not> ?pv
            \<and> PropertyValue S' c q = PropertyValue S Src q
            \<and> (c = Tgt
               \<or> (?pr \<and> c \<in> set Insts
                  \<and> PropertyValue S c q = PropertyValue S Tgt q
                  \<and> chain_matches api S q Tgt c
                  \<and> (\<not> IsCreatedByConstructionScript api c \<longrightarrow> marked S' (Component c))))"
    if ch: "PropertyValue S' c q \<noteq> PropertyValue S c q" for c q
  proof (cases "PropertyValue S' c q = PropertyValue S1 c q")
    case False
    note h = a'[OF False]
    from h have cq: "?cp S1 q" by blast
    note e = E[OF Eq[OF cq]]
    have cS: "?cp S q"
      using cq copy_cond_cong[where api = api and Options = Options and Src = Src and Tgt = Tgt,
                 of S1 q S, OF e] by simp
    have cm: "chain_matches api S1 q Tgt c = chain_matches api S q Tgt c"
      by (rule chain_matches_cong[OF e])
    from h cS cm show ?thesis by (simp add: e K2)
  next
    case True
    with ch have "PropertyValue S1 c q \<noteq> PropertyValue S c q" by simp
    with t5[of c q] have q: "q = p" and cp: "?cp S p" and np: "\<not> ?pv"
      and ct: "c = Tgt \<or> c \<in> set tc" and v: "PropertyValue S1 c q = PropertyValue S Src p"
      by (auto split: if_splits)
    have "c = Tgt
               \<or> (?pr \<and> c \<in> set Insts
                  \<and> PropertyValue S c q = PropertyValue S Tgt q
                  \<and> chain_matches api S q Tgt c
                  \<and> (\<not> IsCreatedByConstructionScript api c \<longrightarrow> marked S' (Component c)))"
    proof (cases "c = Tgt")
      case True
      then show ?thesis by simp
    next
      case False
      with ct have m: "c \<in> set tc" by simp
      then have "tc \<noteq> []" by auto
      with t2 have "?pr" by simp
      moreover from m t1 have "c \<in> set Insts" by blast
      moreover from m t3 have "PropertyValue S c p = PropertyValue S Tgt p"
        "chain_matches api S p Tgt c"
        "\<not> IsCreatedByConstructionScript api c \<longrightarrow> marked S1 (Component c)" by blast+
      moreover have "marked S1 (Component c) \<Longrightarrow> marked S' (Component c)"
        by (rule marked_mono[OF _ c1 c2])
      ultimately show ?thesis using q by blast
    qed
    with q cp np v True show ?thesis by simp
  qed
  have B: "PropertyValue S' Tgt q = PropertyValue S Src q"
    if "q \<in> set (p # ps)" "?cp S q" "\<not> ?pv" for q
  proof (cases "q = p")
    case True
    have v1: "PropertyValue S1 Tgt p = PropertyValue S Src p"
      using t5[of Tgt p] that True by simp
    have "PropertyValue S' Tgt p = PropertyValue S1 Tgt p"
    proof (rule ccontr)
      assume "PropertyValue S' Tgt p \<noteq> PropertyValue S1 Tgt p"
      from a'[OF this] have "?cp S1 p" by blast
      with K3 that True show False by blast
    qed
    with v1 True show ?thesis by simp
  next
    case False
    with that(1) have qp: "q \<in> set ps" by simp
    have e: "\<And>x. PropertyValue S1 x q = PropertyValue S x q" using E False by blast
    have "?cp S1 q"
      using that(2) copy_cond_cong[where api = api and Options = Options and Src = Src
                      and Tgt = Tgt, of S1 q S, OF e] by simp
    from b'[OF qp this that(3)] show ?thesis by (simp add: K2)
  qed
  have C: "HasRF_Transactional S \<subseteq> HasRF_Transactional S'" using t6 c1 by blast
  have D: "set (RecordedForUndo S) \<subseteq> set (RecordedForUndo S')" using t7 c2 by blast
  have P: "?pv \<longrightarrow> S' = S \<and> R' = R" using t8 d' by blast
  show ?case
    apply (intro conjI allI impI ballI)
    subgoal for c q using A[of c q] by blast
    subgoal for c q using A[of c q] by blast
    subgoal for c q using A[of c q] by blast
    subgoal for c q using A[of c q] by blast
    subgoal for c q using A[of c q] by blast
    subgoal for q using B[of q] by blast
    subgoal by (rule C)
    subgoal by (rule D)
    subgoal using P by blast
    subgoal using P by blast
    done
qed


lemma CopyProperties_loop_count:
  assumes ti: "Tgt \<notin> set Insts" and si: "Src \<notin> set Insts" and d: "distinct ps"
      and r: "CopyProperties_loop api Options Src Tgt Insts (GetUCSModifiedProperties api Src) ps
                (S, n, R) = Some (S', n', R')"
  shows "n' = n + int (length (filter (copy_cond api Options Src Tgt S) ps))"
  using d r
proof (induction ps arbitrary: S n R)
  case Nil
  then show ?case by simp
next
  case (Cons p ps)
  from Cons.prems(2) obtain S1 n1 R1 where
    b: "CopyProperty_body api Options Src Tgt Insts (GetUCSModifiedProperties api Src) p
          (S, n, R) = Some (S1, n1, R1)"
    and l: "CopyProperties_loop api Options Src Tgt Insts (GetUCSModifiedProperties api Src) ps
          (S1, n1, R1) = Some (S', n', R')"
    by (auto split: option.splits)
  from CopyProperty_body_effect[OF ti b] obtain tc where
    "set tc \<subseteq> set Insts"
    "tc \<noteq> [] \<longrightarrow> PropagateChangesToArchetypeInstances \<in> Flags Options"
    "\<forall>i\<in>set tc. PropertyValue S i p = PropertyValue S Tgt p
                          \<and> chain_matches api S p Tgt i
                          \<and> (\<not> IsCreatedByConstructionScript api i \<longrightarrow> marked S1 (Component i))"
    and t4: "n1 = n + (if copy_cond api Options Src Tgt S p then 1 else 0)"
    and t5': "\<forall>c q. PropertyValue S1 c q =
                 (if q = p \<and> copy_cond api Options Src Tgt S p \<and> PreviewOnly \<notin> Flags Options
                     \<and> (c = Tgt \<or> c \<in> set tc)
                  then PropertyValue S Src p else PropertyValue S c q)"
    by (elim exE conjE) (rule that)
  have t5: "PropertyValue S1 c q = PropertyValue S c q" if "q \<noteq> p" for c q
    using t5'[rule_format, of c q] that by simp
  from Cons.prems(1) have dp: "distinct ps" and pn: "p \<notin> set ps" by simp_all
  have "n' = n1 + int (length (filter (copy_cond api Options Src Tgt S1) ps))"
    by (rule Cons.IH[OF dp l])
  moreover have "filter (copy_cond api Options Src Tgt S1) ps
                   = filter (copy_cond api Options Src Tgt S) ps"
  proof (rule filter_cong[OF refl])
    fix q assume "q \<in> set ps"
    with pn have "q \<noteq> p" by blast
    then have "\<And>x. PropertyValue S1 x q = PropertyValue S x q" by (rule t5)
    then show "copy_cond api Options Src Tgt S1 q = copy_cond api Options Src Tgt S q"
      by (rule copy_cond_cong)
  qed
  ultimately show ?case using t4 by simp
qed



lemma InstancesToChange_total:
  assumes "\<forall>i\<in>set insts. GetArchetype api i = Some (Component Tgt)"
  shows "\<exists>tc. InstancesToChange api S p Tgt insts acc = Some tc"
  using assms
  by (induction insts arbitrary: acc) (simp_all add: ShouldAdd_def)

lemma CopyProperty_body_total:
  assumes "PreviewOnly \<in> Flags Options
           \<or> PropagateChangesToArchetypeInstances \<notin> Flags Options
           \<or> (\<forall>i\<in>set Insts. GetArchetype api i = Some (Component Tgt))"
  shows "\<exists>X'. CopyProperty_body api Options Src Tgt Insts (GetUCSModifiedProperties api Src) p X
                = Some X'"
proof -
  obtain S n R where X: "X = (S, n, R)" by (cases X) auto
  show ?thesis
  proof (cases "passes_filters api Options Src p
               \<and> PropertyValue S Src p \<noteq> PropertyValue S Tgt p")
    case False
    from CopyProperty_body_skip[OF False] show ?thesis unfolding X by blast
  next
    case cc: True
    show ?thesis
    proof (cases "PreviewOnly \<in> Flags Options")
      case True
      from CopyProperty_body_preview[OF _ _ True] cc show ?thesis unfolding X by blast
    next
      case np: False
      let ?S1 = "Modify (Component Tgt) (SetFlags_RF_Transactional (Component Tgt) S)"
      let ?S2 = "if CallPostEditChangeProperty \<in> Flags Options
             then Notify (PreEditChange Tgt p) ?S1 else ?S1"
      let ?itc = "if PropagateChangesToArchetypeInstances \<in> Flags Options
              then InstancesToChange api ?S2 p Tgt Insts [] else Some []"
      have "\<exists>tc. ?itc = Some tc"
      proof (cases "PropagateChangesToArchetypeInstances \<in> Flags Options")
        case False
        then show ?thesis by simp
      next
        case True
        with assms np have "\<forall>i\<in>set Insts. GetArchetype api i = Some (Component Tgt)" by blast
        from InstancesToChange_total[OF this, of ?S2 p "[]"] True show ?thesis
          by (simp only: if_True)
      qed
      then obtain tc where tc: "?itc = Some tc" ..
      from cc have pf: "passes_filters api Options Src p"
        and ne: "PropertyValue S Src p \<noteq> PropertyValue S Tgt p" by simp_all
      note bc = CopyProperty_body_copy[OF pf ne np, of Insts n R]
      have "\<exists>X'. CopyProperty_body api Options Src Tgt Insts (GetUCSModifiedProperties api Src)
                    p (S, n, R) = Some X'"
        unfolding bc using tc by (simp add: Let_def)
      then show ?thesis unfolding X .
    qed
  qed
qed

lemma CopyProperties_loop_total:
  assumes "PreviewOnly \<in> Flags Options
           \<or> PropagateChangesToArchetypeInstances \<notin> Flags Options
           \<or> (\<forall>i\<in>set Insts. GetArchetype api i = Some (Component Tgt))"
  shows "\<exists>X'. CopyProperties_loop api Options Src Tgt Insts (GetUCSModifiedProperties api Src) ps X
                = Some X'"
proof (induction ps arbitrary: X)
  case Nil
  show ?case by (rule exI[of _ X]) simp
next
  case (Cons p ps)
  from CopyProperty_body_total[OF assms, of Src p X] obtain X1 where
    "CopyProperty_body api Options Src Tgt Insts (GetUCSModifiedProperties api Src) p X = Some X1" ..
  with Cons.IH[of X1] show ?case by simp
qed



lemma CollectInstances_set:
  "set (CollectInstances Src Tgt objs acc)
     = set acc \<union> {c. Component c \<in> set objs \<and> c \<noteq> Src \<and> c \<noteq> Tgt}"
proof (induction objs arbitrary: acc)
  case Nil
  show ?case by simp
next
  case (Cons obj objs)
  show ?case
  proof (cases obj)
    case (Component c)
    then show ?thesis using Cons.IH by (auto simp: Cast_UActorComponent_def)
  next
    case (Actor a)
    then show ?thesis using Cons.IH by (auto simp: Cast_UActorComponent_def)
  next
    case (PlainObject x)
    then show ?thesis using Cons.IH by (auto simp: Cast_UActorComponent_def)
  qed
qed

lemma fold_RegisterComponent [simp]:
  "PropertyValue (fold RegisterComponent rs S) = PropertyValue S"
  "HasRF_Transactional (fold RegisterComponent rs S) = HasRF_Transactional S"
  "RecordedForUndo (fold RegisterComponent rs S) = RecordedForUndo S"
  by (induction rs arbitrary: S) simp_all


lemma instances_of_set:
  "set (instances_of api Options Src Tgt) \<subseteq>
     {c. Component c \<in> set (GetArchetypeInstances api Tgt) \<and> c \<noteq> Src \<and> c \<noteq> Tgt}"
  by (auto simp add: instances_of_def CollectInstances_set)

lemma CopyComponentProperties_unfold:
  "CopyComponentProperties api S Src Tgt Options =
     (if GetClass api Src \<noteq> GetClass api Tgt then None
      else case CopyProperties_loop api Options Src Tgt (instances_of api Options Src Tgt)
                  (GetUCSModifiedProperties api Src) (PropertyLink api (GetClass api Src))
                  (S, 0, []) of
             None \<Rightarrow> None
           | Some (S1, n, R) \<Rightarrow> Some (n, fold RegisterComponent R S1))"
  by (simp add: CopyComponentProperties_def instances_of_def Let_def)

lemma CopyComponentProperties_Some:
  assumes "CopyComponentProperties api S Src Tgt Options = Some (n, S')"
  shows "GetClass api Src = GetClass api Tgt
         \<and> (\<exists>S1 R. CopyProperties_loop api Options Src Tgt (instances_of api Options Src Tgt)
                  (GetUCSModifiedProperties api Src) (PropertyLink api (GetClass api Src))
                  (S, 0, []) = Some (S1, n, R)
                \<and> S' = fold RegisterComponent R S1)"
  using assms unfolding CopyComponentProperties_unfold
  by (auto split: if_splits option.splits)

lemma CopyComponentProperties_total:
  assumes "GetClass api Src = GetClass api Tgt"
      and "PreviewOnly \<in> Flags Options
           \<or> PropagateChangesToArchetypeInstances \<notin> Flags Options
           \<or> (\<forall>c. Component c \<in> set (GetArchetypeInstances api Tgt) \<and> c \<noteq> Src \<and> c \<noteq> Tgt
                  \<longrightarrow> GetArchetype api c = Some (Component Tgt))"
  shows "\<exists>n S'. CopyComponentProperties api S Src Tgt Options = Some (n, S')"
proof -
  have "PreviewOnly \<in> Flags Options
           \<or> PropagateChangesToArchetypeInstances \<notin> Flags Options
           \<or> (\<forall>i\<in>set (instances_of api Options Src Tgt).
                 GetArchetype api i = Some (Component Tgt))"
    using assms(2) instances_of_set[of api Options Src Tgt] by blast
  from CopyProperties_loop_total[OF this, of Src "PropertyLink api (GetClass api Src)" "(S, 0, [])"]
  obtain X' where "CopyProperties_loop api Options Src Tgt (instances_of api Options Src Tgt)
                  (GetUCSModifiedProperties api Src) (PropertyLink api (GetClass api Src))
                  (S, 0, []) = Some X'" ..
  then show ?thesis unfolding CopyComponentProperties_unfold using assms(1) by (cases X') simp
qed

lemma CopyComponentProperties_effect:
  assumes r: "CopyComponentProperties api S Src Tgt Options = Some (n, S')"
  shows "\<forall>c q. PropertyValue S' c q \<noteq> PropertyValue S c q \<longrightarrow>
            q \<in> set (PropertyLink api (GetClass api Src))
            \<and> copy_cond api Options Src Tgt S q \<and> PreviewOnly \<notin> Flags Options
            \<and> PropertyValue S' c q = PropertyValue S Src q
            \<and> (c = Tgt
               \<or> (PropagateChangesToArchetypeInstances \<in> Flags Options
                  \<and> Component c \<in> set (GetArchetypeInstances api Tgt) \<and> c \<noteq> Src
                  \<and> PropertyValue S c q = PropertyValue S Tgt q
                  \<and> chain_matches api S q Tgt c
                  \<and> (\<not> IsCreatedByConstructionScript api c \<longrightarrow> marked S' (Component c))))"
    and "\<forall>q\<in>set (PropertyLink api (GetClass api Src)).
            copy_cond api Options Src Tgt S q \<and> PreviewOnly \<notin> Flags Options
               \<longrightarrow> PropertyValue S' Tgt q = PropertyValue S Src q"
    and "HasRF_Transactional S \<subseteq> HasRF_Transactional S'"
    and "set (RecordedForUndo S) \<subseteq> set (RecordedForUndo S')"
    and "PreviewOnly \<in> Flags Options \<longrightarrow> S' = S"
    and "distinct (PropertyLink api (GetClass api Src)) \<longrightarrow>
           n = int (length (filter (copy_cond api Options Src Tgt S)
                              (PropertyLink api (GetClass api Src))))"
proof -
  let ?I = "instances_of api Options Src Tgt"
  let ?ps = "PropertyLink api (GetClass api Src)"
  from CopyComponentProperties_Some[OF r] obtain S1 R where
    l: "CopyProperties_loop api Options Src Tgt ?I (GetUCSModifiedProperties api Src) ?ps
          (S, 0, []) = Some (S1, n, R)"
    and s': "S' = fold RegisterComponent R S1"
    by blast
  have ti: "Tgt \<notin> set ?I" and si: "Src \<notin> set ?I"
    using instances_of_set[of api Options Src Tgt] by blast+
  have isub: "\<And>c. c \<in> set ?I \<Longrightarrow> Component c \<in> set (GetArchetypeInstances api Tgt) \<and> c \<noteq> Src"
    using instances_of_set[of api Options Src Tgt] by blast
  have mk: "marked S' obj = marked S1 obj" for obj by (simp add: marked_def s')
  have pv: "PropertyValue S' = PropertyValue S1" by (simp add: s')
  note le = CopyProperties_loop_effect[OF ti si l]
  from le have
    a: "\<And>c q. PropertyValue S1 c q \<noteq> PropertyValue S c q \<Longrightarrow>
            q \<in> set ?ps \<and> copy_cond api Options Src Tgt S q \<and> PreviewOnly \<notin> Flags Options
            \<and> PropertyValue S1 c q = PropertyValue S Src q
            \<and> (c = Tgt
               \<or> (PropagateChangesToArchetypeInstances \<in> Flags Options \<and> c \<in> set ?I
                  \<and> PropertyValue S c q = PropertyValue S Tgt q
                  \<and> chain_matches api S q Tgt c
                  \<and> (\<not> IsCreatedByConstructionScript api c \<longrightarrow> marked S1 (Component c))))"
    by blast
  show "\<forall>c q. PropertyValue S' c q \<noteq> PropertyValue S c q \<longrightarrow>
            q \<in> set ?ps
            \<and> copy_cond api Options Src Tgt S q \<and> PreviewOnly \<notin> Flags Options
            \<and> PropertyValue S' c q = PropertyValue S Src q
            \<and> (c = Tgt
               \<or> (PropagateChangesToArchetypeInstances \<in> Flags Options
                  \<and> Component c \<in> set (GetArchetypeInstances api Tgt) \<and> c \<noteq> Src
                  \<and> PropertyValue S c q = PropertyValue S Tgt q
                  \<and> chain_matches api S q Tgt c
                  \<and> (\<not> IsCreatedByConstructionScript api c \<longrightarrow> marked S' (Component c))))"
    unfolding mk pv using a isub by blast
  from le show "\<forall>q\<in>set ?ps.
            copy_cond api Options Src Tgt S q \<and> PreviewOnly \<notin> Flags Options
               \<longrightarrow> PropertyValue S' Tgt q = PropertyValue S Src q"
    unfolding pv by blast
  from le show "HasRF_Transactional S \<subseteq> HasRF_Transactional S'" by (simp add: s')
  from le show "set (RecordedForUndo S) \<subseteq> set (RecordedForUndo S')" by (simp add: s')
  from le have "PreviewOnly \<in> Flags Options \<longrightarrow> S1 = S \<and> R = []" by blast
  then show "PreviewOnly \<in> Flags Options \<longrightarrow> S' = S" by (simp add: s')
  show "distinct ?ps \<longrightarrow> n = int (length (filter (copy_cond api Options Src Tgt S) ?ps))"
    using CopyProperties_loop_count[OF ti si _ l] by simp
qed


lemma IsRegistered_simps [simp]:
  "IsRegistered (Modify obj S) = IsRegistered S"
  "IsRegistered (SetFlags_RF_Transactional obj S) = IsRegistered S"
  "IsRegistered (Notify nt S) = IsRegistered S"
  "IsRegistered (UnregisterComponent c S) = (IsRegistered S)(c := False)"
  "IsRegistered (RegisterComponent c S) = (IsRegistered S)(c := True)"
  "IsRegistered (CopySingleProperty a b p S) = IsRegistered S"
  by (simp_all add: Modify_def SetFlags_RF_Transactional_def Notify_def UnregisterComponent_def
        RegisterComponent_def CopySingleProperty_def)

lemma example_props [simp]:
  "p_location \<noteq> p_mass" "p_mass \<noteq> p_cache" "p_location \<noteq> p_cache"
  "p_mass \<noteq> p_location" "p_cache \<noteq> p_mass" "p_cache \<noteq> p_location"
  by (simp_all add: p_location_def p_mass_def p_cache_def)

lemma example_values [simp]:
  "PropertyValue example_objects 5 q = 10"
  "PropertyValue example_objects 2 q = 0"
  "PropertyValue example_objects 3 q = 0"
  "PropertyValue example_objects 4 p_mass = 5"
  "IsRegistered example_objects c = (c = 3)"
  by (simp_all add: example_objects_def)


lemmas example_unfold =
  CopyComponentProperties_def CopyProperty_body_def PropagateToInstance_def
  ShouldAdd_def Identical_InContainer_def Cast_UActorComponent_def
  example_component_api_def example_options_def Let_def
  p_location_def [THEN arg_cong [where f = FName]]
  p_location_def [THEN arg_cong [where f = PropertyFlags]]
  p_mass_def [THEN arg_cong [where f = FName]]
  p_mass_def [THEN arg_cong [where f = PropertyFlags]]
  p_cache_def [THEN arg_cong [where f = FName]]
  p_cache_def [THEN arg_cong [where f = PropertyFlags]]

lemma example_propagating_run:
  "CopyComponentProperties example_component_api example_objects 5 2
     (example_options {PropagateChangesToArchetypeInstances})
   = Some (1, example_after_propagation)"
  by (simp add: example_unfold example_after_propagation_def example_after_copy_def)

lemma example_plain_run:
  "CopyComponentProperties example_component_api example_objects 5 2 (example_options {})
   = Some (1, example_after_copy)"
  by (simp add: example_unfold example_after_copy_def)

lemma example_preview_run:
  "CopyComponentProperties example_component_api example_objects 5 2
     (example_options {PreviewOnly, PropagateChangesToArchetypeInstances})
   = Some (1, example_objects)"
  by (simp add: example_unfold)

text \<open>
  Claim C3, as amended. When the function returns, the target's value of a property is the
  source's former value exactly when the property is in the class's list, is non-transient,
  differs between source and target, is neither an instanced reference nor contains one,
  was not modified by the source's construction script, is none of the three relative
  transform properties, passes the two option filters and \<^verbatim>\<open>CanCopyProperty\<close>, and
  \<^verbatim>\<open>PreviewOnly\<close> is not set; every other value of the target is what it was. The function
  returns whenever the two classes are equal and it is previewing, or not propagating, or
  every collected instance has the target as its direct archetype.
\<close>

theorem CopyComponentProperties_target_values:
  "(CopyComponentProperties api S Src Tgt Options = Some (n, S') \<longrightarrow>
      PropertyValue S' Tgt q =
        (if q \<in> set (PropertyLink api (GetClass api Src))
            \<and> CPF_Transient \<notin> PropertyFlags q
            \<and> PropertyValue S Src q \<noteq> PropertyValue S Tgt q
            \<and> CPF_InstancedReference \<notin> PropertyFlags q
            \<and> CPF_ContainsInstancedReference \<notin> PropertyFlags q
            \<and> q \<notin> GetUCSModifiedProperties api Src
            \<and> FName q \<noteq> GetRelativeScale3DPropertyName api
            \<and> FName q \<noteq> GetRelativeLocationPropertyName api
            \<and> FName q \<noteq> GetRelativeRotationPropertyName api
            \<and> (OnlyCopyEditOrInterpProperties \<in> Flags Options
                 \<longrightarrow> CPF_Edit \<in> PropertyFlags q \<or> CPF_Interp \<in> PropertyFlags q)
            \<and> (SkipInstanceOnlyProperties \<in> Flags Options
                 \<longrightarrow> CPF_DisableEditOnTemplate \<notin> PropertyFlags q)
            \<and> CanCopyProperty Options q Src
            \<and> PreviewOnly \<notin> Flags Options
         then PropertyValue S Src q else PropertyValue S Tgt q))
   \<and> (GetClass api Src = GetClass api Tgt
       \<and> (PreviewOnly \<in> Flags Options
           \<or> PropagateChangesToArchetypeInstances \<notin> Flags Options
           \<or> (\<forall>c. Component c \<in> set (GetArchetypeInstances api Tgt) \<and> c \<noteq> Src \<and> c \<noteq> Tgt
                  \<longrightarrow> GetArchetype api c = Some (Component Tgt)))
       \<longrightarrow> (\<exists>n S'. CopyComponentProperties api S Src Tgt Options = Some (n, S')))"
proof (intro conjI impI)
  assume r: "CopyComponentProperties api S Src Tgt Options = Some (n, S')"
  let ?C = "q \<in> set (PropertyLink api (GetClass api Src))
            \<and> copy_cond api Options Src Tgt S q \<and> PreviewOnly \<notin> Flags Options"
  have v: "PropertyValue S' Tgt q = (if ?C then PropertyValue S Src q else PropertyValue S Tgt q)"
  proof (cases ?C)
    case True
    with CopyComponentProperties_effect(2)[OF r] have "PropertyValue S' Tgt q = PropertyValue S Src q" by blast
    then show ?thesis by (simp only: if_P[OF True])
  next
    case False
    have "PropertyValue S' Tgt q = PropertyValue S Tgt q"
    proof (rule ccontr)
      assume "PropertyValue S' Tgt q \<noteq> PropertyValue S Tgt q"
      with CopyComponentProperties_effect(1)[OF r] have ?C by blast
      with False show False by blast
    qed
    then show ?thesis by (simp only: if_not_P[OF False])
  qed
  show "PropertyValue S' Tgt q =
        (if q \<in> set (PropertyLink api (GetClass api Src))
            \<and> CPF_Transient \<notin> PropertyFlags q
            \<and> PropertyValue S Src q \<noteq> PropertyValue S Tgt q
            \<and> CPF_InstancedReference \<notin> PropertyFlags q
            \<and> CPF_ContainsInstancedReference \<notin> PropertyFlags q
            \<and> q \<notin> GetUCSModifiedProperties api Src
            \<and> FName q \<noteq> GetRelativeScale3DPropertyName api
            \<and> FName q \<noteq> GetRelativeLocationPropertyName api
            \<and> FName q \<noteq> GetRelativeRotationPropertyName api
            \<and> (OnlyCopyEditOrInterpProperties \<in> Flags Options
                 \<longrightarrow> CPF_Edit \<in> PropertyFlags q \<or> CPF_Interp \<in> PropertyFlags q)
            \<and> (SkipInstanceOnlyProperties \<in> Flags Options
                 \<longrightarrow> CPF_DisableEditOnTemplate \<notin> PropertyFlags q)
            \<and> CanCopyProperty Options q Src
            \<and> PreviewOnly \<notin> Flags Options
         then PropertyValue S Src q else PropertyValue S Tgt q)"
    unfolding v copy_cond_def passes_filters_def
    by (rule if_cong) (blast, simp_all)
next
  assume "GetClass api Src = GetClass api Tgt
       \<and> (PreviewOnly \<in> Flags Options
           \<or> PropagateChangesToArchetypeInstances \<notin> Flags Options
           \<or> (\<forall>c. Component c \<in> set (GetArchetypeInstances api Tgt) \<and> c \<noteq> Src \<and> c \<noteq> Tgt
                  \<longrightarrow> GetArchetype api c = Some (Component Tgt)))"
  then show "\<exists>n S'. CopyComponentProperties api S Src Tgt Options = Some (n, S')"
    using CopyComponentProperties_total[of api Src Tgt Options S] by blast
qed

theorem CopyComponentProperties_target_values_witness:
  "CopyComponentProperties example_component_api example_objects 5 2
     (example_options {PropagateChangesToArchetypeInstances})
     = Some (1, example_after_propagation)
   \<and> PropertyValue example_after_propagation 2 p_mass = 10
   \<and> PropertyValue example_after_propagation 2 p_location = 0
   \<and> PropertyValue example_after_propagation 2 p_cache = 0"
proof -
  note r = example_propagating_run
  note t = CopyComponentProperties_target_values
             [where api = example_component_api and S = example_objects and Src = 5 and Tgt = 2
                and Options = "example_options {PropagateChangesToArchetypeInstances}"
                and n = 1 and S' = example_after_propagation,
              THEN conjunct1, rule_format, OF r]
  have 1: "PropertyValue example_after_propagation 2 p_mass = 10"
    using t[of p_mass]
    by (simp add: example_component_api_def example_options_def
          p_mass_def [THEN arg_cong [where f = FName]]
          p_mass_def [THEN arg_cong [where f = PropertyFlags]])
  have 2: "PropertyValue example_after_propagation 2 p_location = 0"
    using t[of p_location]
    by (simp add: example_component_api_def example_options_def
          p_location_def [THEN arg_cong [where f = FName]]
          p_location_def [THEN arg_cong [where f = PropertyFlags]])
  have 3: "PropertyValue example_after_propagation 2 p_cache = 0"
    using t[of p_cache]
    by (simp add: example_component_api_def example_options_def
          p_cache_def [THEN arg_cong [where f = FName]]
          p_cache_def [THEN arg_cong [where f = PropertyFlags]])
  from r 1 2 3 show ?thesis by (intro conjI)
qed

text \<open>
  Claim C3 as stated fails: \<^verbatim>\<open>RelativeLocation\<close> is in the class's list, is non-transient,
  differs between source (10) and target (0) and carries no instanced-reference flag, and
  the run with no option set leaves the target's value at 0.
\<close>

theorem CopyComponentProperties_skips_transform_property:
  "CopyComponentProperties example_component_api example_objects 5 2 (example_options {})
     = Some (1, example_after_copy)
   \<and> PropertyValue example_after_copy 2 p_location = 0
   \<and> PropertyValue example_objects 5 p_location = 10
   \<and> PropertyValue example_objects 2 p_location = 0
   \<and> p_location \<in> set (PropertyLink example_component_api (GetClass example_component_api 5))
   \<and> CPF_Transient \<notin> PropertyFlags p_location
   \<and> CPF_InstancedReference \<notin> PropertyFlags p_location
   \<and> CPF_ContainsInstancedReference \<notin> PropertyFlags p_location"
proof (intro conjI)
  show "CopyComponentProperties example_component_api example_objects 5 2 (example_options {})
          = Some (1, example_after_copy)"
    by (rule example_plain_run)
qed (simp_all add: example_after_copy_def example_component_api_def
       p_location_def [THEN arg_cong [where f = PropertyFlags]])


text \<open>
  Claim C4. When the function returns and has changed the value of a property in a
  component other than the target, then the propagation option is set, the component is an
  archetype instance of the target, the property is one that was copied to the target (the
  target now holds the source's value, which differed), the instance received that same
  value, the instance's former value was the target's former value, the instance's
  archetypes agreed as well (its direct archetype is the target, or every component reached
  from it along archetypes held the target's former value), and, unless a construction
  script created the instance, it now carries \<^verbatim>\<open>RF_Transactional\<close> and was recorded by
  \<^verbatim>\<open>Modify()\<close>.
\<close>

theorem CopyComponentProperties_propagation:
  assumes "CopyComponentProperties api S Src Tgt Options = Some (n, S')"
      and "c \<noteq> Tgt"
      and "PropertyValue S' c q \<noteq> PropertyValue S c q"
  shows "PropagateChangesToArchetypeInstances \<in> Flags Options
         \<and> Component c \<in> set (GetArchetypeInstances api Tgt)
         \<and> PropertyValue S Src q \<noteq> PropertyValue S Tgt q
         \<and> PropertyValue S' Tgt q = PropertyValue S Src q
         \<and> PropertyValue S' c q = PropertyValue S Src q
         \<and> PropertyValue S c q = PropertyValue S Tgt q
         \<and> (GetArchetype api c = Some (Component Tgt)
            \<or> (\<forall>d. (c, d) \<in> (archetype_of api)\<^sup>+
                   \<longrightarrow> PropertyValue S d q = PropertyValue S Tgt q))
         \<and> (\<not> IsCreatedByConstructionScript api c
              \<longrightarrow> Component c \<in> HasRF_Transactional S' \<and> Component c \<in> set (RecordedForUndo S'))"
proof -
  from CopyComponentProperties_effect(1)[OF assms(1)] assms(2,3) have
    q: "q \<in> set (PropertyLink api (GetClass api Src))"
    and cc: "copy_cond api Options Src Tgt S q" and np: "PreviewOnly \<notin> Flags Options"
    and v: "PropertyValue S' c q = PropertyValue S Src q"
    and pr: "PropagateChangesToArchetypeInstances \<in> Flags Options"
    and inst: "Component c \<in> set (GetArchetypeInstances api Tgt)"
    and m: "PropertyValue S c q = PropertyValue S Tgt q"
    and ch: "chain_matches api S q Tgt c"
    and mk: "\<not> IsCreatedByConstructionScript api c \<longrightarrow> marked S' (Component c)"
    by blast+
  from CopyComponentProperties_effect(2)[OF assms(1)] q cc np
  have vt: "PropertyValue S' Tgt q = PropertyValue S Src q" by blast
  from cc have ne: "PropertyValue S Src q \<noteq> PropertyValue S Tgt q" by (simp add: copy_cond_def)
  from ch have ch': "GetArchetype api c = Some (Component Tgt)
            \<or> (\<forall>d. (c, d) \<in> (archetype_of api)\<^sup>+
                   \<longrightarrow> PropertyValue S d q = PropertyValue S Tgt q)"
    by (simp add: chain_matches_def)
  from mk have mk': "\<not> IsCreatedByConstructionScript api c
              \<longrightarrow> Component c \<in> HasRF_Transactional S' \<and> Component c \<in> set (RecordedForUndo S')"
    by (simp add: marked_def)
  from pr inst ne vt v m ch' mk' show ?thesis by (intro conjI)
qed

theorem CopyComponentProperties_propagation_witness:
  "CopyComponentProperties example_component_api example_objects 5 2
     (example_options {PropagateChangesToArchetypeInstances})
     = Some (1, example_after_propagation)
   \<and> PropertyValue example_after_propagation 3 p_mass = 10
   \<and> PropertyValue example_objects 3 p_mass = 0
   \<and> PropertyValue example_objects 2 p_mass = 0
   \<and> PropertyValue example_objects 5 p_mass = 10
   \<and> PropertyValue example_after_propagation 2 p_mass = 10
   \<and> GetArchetype example_component_api 3 = Some (Component 2)
   \<and> Component 3 \<in> HasRF_Transactional example_after_propagation
   \<and> Component 3 \<in> set (RecordedForUndo example_after_propagation)
   \<and> PropertyValue example_after_propagation 4 p_mass = 5"
proof -
  note r = example_propagating_run
  have ne: "(3::nat) \<noteq> 2" by simp
  have ch: "PropertyValue example_after_propagation 3 p_mass \<noteq> PropertyValue example_objects 3 p_mass"
    by (simp add: example_after_propagation_def example_after_copy_def)
  note t = CopyComponentProperties_propagation[OF r ne ch]
  have cs: "\<not> IsCreatedByConstructionScript example_component_api 3"
    by (simp add: example_component_api_def)
  from t cs have m: "Component 3 \<in> HasRF_Transactional example_after_propagation"
    "Component 3 \<in> set (RecordedForUndo example_after_propagation)"
    "PropertyValue example_after_propagation 2 p_mass = 10"
    "PropertyValue example_after_propagation 3 p_mass = 10"
    by simp_all
  have rest: "PropertyValue example_objects 3 p_mass = 0"
    "PropertyValue example_objects 2 p_mass = 0"
    "PropertyValue example_objects 5 p_mass = 10"
    "GetArchetype example_component_api 3 = Some (Component 2)"
    "PropertyValue example_after_propagation 4 p_mass = 5"
    by (simp_all add: example_component_api_def example_after_propagation_def
          example_after_copy_def)
  from r m rest show ?thesis by (intro conjI)
qed

text \<open>
  Claim C10. With \<^verbatim>\<open>PreviewOnly\<close> set and source and target of one class, the function returns
  and the state afterwards is the state before: no value written, no flag set, nothing
  recorded, no notification, no registration change. For a class whose property list has
  no repeated entry (a list linked by \<^verbatim>\<open>PropertyLinkNext\<close> has none), the count it returns is
  the count returned by the run with the same options without \<^verbatim>\<open>PreviewOnly\<close>, whenever that
  run returns.
\<close>

theorem CopyComponentProperties_preview:
  "(PreviewOnly \<in> Flags Options \<and> GetClass api Src = GetClass api Tgt
      \<longrightarrow> (\<exists>n. CopyComponentProperties api S Src Tgt Options = Some (n, S)))
   \<and> (PreviewOnly \<in> Flags Options
       \<and> distinct (PropertyLink api (GetClass api Src))
       \<and> CopyComponentProperties api S Src Tgt Options = Some (n, S')
       \<and> CopyComponentProperties api S Src Tgt (Options\<lparr>Flags := Flags Options - {PreviewOnly}\<rparr>)
           = Some (m, S'')
      \<longrightarrow> S' = S \<and> m = n)"
proof (rule conjI; rule impI)
  assume a: "PreviewOnly \<in> Flags Options \<and> GetClass api Src = GetClass api Tgt"
  with CopyComponentProperties_total[of api Src Tgt Options S] obtain n0 S0 where
    r: "CopyComponentProperties api S Src Tgt Options = Some (n0, S0)" by blast
  from CopyComponentProperties_effect(5)[OF r] a have "S0 = S" by blast
  with r show "\<exists>n. CopyComponentProperties api S Src Tgt Options = Some (n, S)" by blast
next
  let ?O = "Options\<lparr>Flags := Flags Options - {PreviewOnly}\<rparr>"
  assume a: "PreviewOnly \<in> Flags Options
       \<and> distinct (PropertyLink api (GetClass api Src))
       \<and> CopyComponentProperties api S Src Tgt Options = Some (n, S')
       \<and> CopyComponentProperties api S Src Tgt ?O = Some (m, S'')"
  then have pv: "PreviewOnly \<in> Flags Options"
    and d: "distinct (PropertyLink api (GetClass api Src))"
    and r1: "CopyComponentProperties api S Src Tgt Options = Some (n, S')"
    and r2: "CopyComponentProperties api S Src Tgt ?O = Some (m, S'')"
    by blast+
  have cc: "copy_cond api ?O Src Tgt S = copy_cond api Options Src Tgt S"
    by (rule ext) (simp add: copy_cond_def passes_filters_def)
  from CopyComponentProperties_effect(6)[OF r1] d
  have n: "n = int (length (filter (copy_cond api Options Src Tgt S)
                              (PropertyLink api (GetClass api Src))))" by blast
  from CopyComponentProperties_effect(6)[OF r2] d
  have m: "m = int (length (filter (copy_cond api ?O Src Tgt S)
                              (PropertyLink api (GetClass api Src))))" by blast
  from CopyComponentProperties_effect(5)[OF r1] pv have "S' = S" by blast
  with n m cc show "S' = S \<and> m = n" by simp
qed

theorem CopyComponentProperties_preview_witness:
  "CopyComponentProperties example_component_api example_objects 5 2
     (example_options {PreviewOnly, PropagateChangesToArchetypeInstances})
     = Some (1, example_objects)
   \<and> (\<exists>S''. CopyComponentProperties example_component_api example_objects 5 2
               (example_options {PropagateChangesToArchetypeInstances}) = Some (1, S''))"
proof -
  let ?O = "example_options {PreviewOnly, PropagateChangesToArchetypeInstances}"
  let ?N = "example_options {PropagateChangesToArchetypeInstances}"
  have o: "?O\<lparr>Flags := Flags ?O - {PreviewOnly}\<rparr> = ?N"
    by (simp add: example_options_def)
  have pv: "PreviewOnly \<in> Flags ?O" by (simp add: example_options_def)
  have d: "distinct (PropertyLink example_component_api (GetClass example_component_api 5))"
    by (simp add: example_component_api_def)
  have "\<exists>m S''. CopyComponentProperties example_component_api example_objects 5 2 ?N
                  = Some (m, S'')"
    by (rule CopyComponentProperties_total) (auto simp: example_component_api_def split: if_splits)
  then obtain m S'' where
    r2: "CopyComponentProperties example_component_api example_objects 5 2 ?N = Some (m, S'')"
    by blast
  from CopyComponentProperties_preview
         [where api = example_component_api and S = example_objects and Src = 5 and Tgt = 2
            and Options = ?O and n = 1 and S' = example_objects and m = m
            and S'' = S'', THEN conjunct2, rule_format, unfolded o]
       pv d example_preview_run r2
  have "m = 1" by blast
  with r2 have "\<exists>S''. CopyComponentProperties example_component_api example_objects 5 2 ?N
                  = Some (1, S'')" by blast
  with example_preview_run show ?thesis by (intro conjI)
qed


end
